theory Spec2Isabelle
  imports Complex_Main "HOL-Library.Word"
begin

section \<open>Shared values\<close>

text \<open>A JavaScript \<^verbatim>\<open>Error\<close> carrying its message. Every \<^verbatim>\<open>throw\<close> of the
  source is an \<open>Inl\<close> of this type in the model.\<close>

datatype error = Error string

text \<open>Decimal rendering of a number inside a template literal.\<close>

definition digit :: "nat \<Rightarrow> char" where
  "digit d = char_of (48 + d)"

function decimal :: "nat \<Rightarrow> string" where
  "decimal n = (if n < 10 then [digit n] else decimal (n div 10) @ [digit (n mod 10)])"
  by pat_completeness auto
termination
  by (relation "measure (\<lambda>n. n)") auto

declare decimal.simps [simp del]

text \<open>The response object of the query processor: \<^verbatim>\<open>{ answer, sources, hasRelevantContext }\<close>.\<close>

record source_ref =
  src_title :: string
  src_url :: string

record response =
  answer :: "string option"
  sources :: "source_ref list"
  hasRelevantContext :: bool

section \<open>Session store (routes/session.js)\<close>

text \<open>The \<^verbatim>\<open>content\<close> of a stored message is whatever the caller passed: \<^verbatim>\<open>null\<close>
  (or nothing at all), a string, or a response object.\<close>

datatype content = Null | Text string | Resp response

datatype role = User | Bot

record message =
  msg_id :: string
  msg_type :: role
  msg_content :: content
  msg_timestamp :: nat

record session =
  sess_id :: string
  createdAt :: nat
  lastActivity :: nat
  messageCount :: nat
  messages :: "message list"

text \<open>The outside world of the session routes: the Redis key space (each value with the
  absolute time at which it expires), the wall clock, whether the Redis connection works,
  the parsed \<^verbatim>\<open>process.env.SESSION_TTL\<close> (\<open>None\<close> when \<^verbatim>\<open>parseInt\<close> gives NaN) and the
  state of the uuid generator. Session values are kept as the parsed JSON structure.\<close>

record world =
  store :: "string \<rightharpoonup> session \<times> nat"
  clock :: nat
  ready :: bool
  SESSION_TTL :: "int option"
  uuids :: nat

definition redis_get :: "string \<Rightarrow> world \<Rightarrow> error + session option" where
  "redis_get k w =
     (if \<not> ready w then Inl (Error ''The client is closed'')
      else Inr (case store w k of
                  None \<Rightarrow> None
                | Some (v, expiry) \<Rightarrow> if clock w < expiry then Some v else None))"

definition redis_setEx :: "string \<Rightarrow> int \<Rightarrow> session \<Rightarrow> world \<Rightarrow> error + world" where
  "redis_setEx k ttl v w =
     (if \<not> ready w then Inl (Error ''The client is closed'')
      else if ttl \<le> 0 then Inl (Error ''ERR invalid expire time in setex'')
      else Inr (w\<lparr>store := (store w)(k \<mapsto> (v, clock w + nat ttl))\<rparr>))"

text \<open>\<^verbatim>\<open>parseInt(process.env.SESSION_TTL) || 86400\<close>: NaN and 0 are falsy.\<close>

definition session_ttl :: "world \<Rightarrow> int" where
  "session_ttl w = (case SESSION_TTL w of None \<Rightarrow> 86400 | Some n \<Rightarrow> if n = 0 then 86400 else n)"

text \<open>\<^verbatim>\<open>uuidv4()\<close>: the n-th draw of the generator.\<close>

definition uuidv4 :: "world \<Rightarrow> string \<times> world" where
  "uuidv4 w = (''uuid-'' @ decimal (uuids w), w\<lparr>uuids := Suc (uuids w)\<rparr>)"

definition session_key :: "string \<Rightarrow> string" where
  "session_key sessionId = ''session:'' @ sessionId"

text \<open>JavaScript truthiness of a message argument, as tested by \<^verbatim>\<open>if (botResponse)\<close>.\<close>

fun truthy :: "content \<Rightarrow> bool" where
  "truthy Null = False"
| "truthy (Text s) = (s \<noteq> [])"
| "truthy (Resp r) = True"

datatype body =
    Created string int
  | Cleared
  | History "message list" nat nat
  | MessageOk response string nat
  | Failure string

datatype reply = Reply nat body

text \<open>\<^verbatim>\<open>POST /create\<close>.\<close>

definition createSession :: "world \<Rightarrow> reply \<times> world" where
  "createSession w =
     (let (sessionId, w1) = uuidv4 w;
          sessionData = \<lparr>sess_id = sessionId, createdAt = clock w1, lastActivity = clock w1,
                         messageCount = 0, messages = []\<rparr>;
          ttl = session_ttl w1
      in case redis_setEx (session_key sessionId) ttl sessionData w1 of
           Inl e \<Rightarrow> (Reply 500 (Failure ''Failed to create session''), w1)
         | Inr w2 \<Rightarrow> (Reply 200 (Created sessionId ttl), w2))"

text \<open>\<^verbatim>\<open>GET /:sessionId/history\<close>.\<close>

definition getHistory :: "string \<Rightarrow> world \<Rightarrow> reply" where
  "getHistory sessionId w =
     (case redis_get (session_key sessionId) w of
        Inl e \<Rightarrow> Reply 500 (Failure ''Failed to fetch session history'')
      | Inr None \<Rightarrow> Reply 404 (Failure ''Session not found or expired'')
      | Inr (Some s) \<Rightarrow> Reply 200 (History (messages s) (messageCount s) (lastActivity s)))"

text \<open>\<^verbatim>\<open>DELETE /:sessionId\<close>: reset the history, keep the id.\<close>

definition clearSession :: "string \<Rightarrow> world \<Rightarrow> reply \<times> world" where
  "clearSession sessionId w =
     (case redis_get (session_key sessionId) w of
        Inl e \<Rightarrow> (Reply 500 (Failure ''Failed to clear session''), w)
      | Inr None \<Rightarrow> (Reply 404 (Failure ''Session not found''), w)
      | Inr (Some s) \<Rightarrow>
          (let s' = s\<lparr>messages := [], messageCount := 0, lastActivity := clock w\<rparr>
           in case redis_setEx (session_key sessionId) (session_ttl w) s' w of
                Inl e \<Rightarrow> (Reply 500 (Failure ''Failed to clear session''), w)
              | Inr w' \<Rightarrow> (Reply 200 Cleared, w')))"

text \<open>The body of \<^verbatim>\<open>updateSessionActivity\<close> between the read and the write: the user
  message is pushed whatever \<open>userMessage\<close> is, the bot message only when \<open>botResponse\<close> is
  truthy; then \<open>messageCount\<close> and \<open>lastActivity\<close> are recomputed.\<close>

definition pushUser :: "content \<Rightarrow> session \<Rightarrow> world \<Rightarrow> session \<times> world" where
  "pushUser userMessage s w =
     (let (id1, w1) = uuidv4 w
      in (s\<lparr>messages := messages s @ [\<lparr>msg_id = id1, msg_type = User,
                 msg_content = userMessage, msg_timestamp = clock w1\<rparr>]\<rparr>, w1))"

definition pushBot :: "content \<Rightarrow> session \<Rightarrow> world \<Rightarrow> session \<times> world" where
  "pushBot botResponse s w =
     (if truthy botResponse
      then (let (id2, w1) = uuidv4 w
            in (s\<lparr>messages := messages s @ [\<lparr>msg_id = id2, msg_type = Bot,
                       msg_content = botResponse, msg_timestamp = clock w1\<rparr>]\<rparr>, w1))
      else (s, w))"

definition pushTurn :: "content \<Rightarrow> content \<Rightarrow> session \<Rightarrow> world \<Rightarrow> session \<times> world" where
  "pushTurn userMessage botResponse s w =
     (let (s1, w1) = pushUser userMessage s w;
          (s2, w2) = pushBot botResponse s1 w1
      in (s2\<lparr>messageCount := length (messages s2), lastActivity := clock w2\<rparr>, w2))"

text \<open>\<^verbatim>\<open>updateSessionActivity(sessionId, userMessage, botResponse)\<close>. A missing or expired
  key gives \<^verbatim>\<open>false\<close>; every exception is caught and turned into \<^verbatim>\<open>false\<close>.\<close>

definition updateSessionActivity :: "string \<Rightarrow> content \<Rightarrow> content \<Rightarrow> world \<Rightarrow> bool \<times> world" where
  "updateSessionActivity sessionId userMessage botResponse w =
     (case redis_get (session_key sessionId) w of
        Inl e \<Rightarrow> (False, w)
      | Inr None \<Rightarrow> (False, w)
      | Inr (Some s) \<Rightarrow>
          (let (s', w') = pushTurn userMessage botResponse s w
           in case redis_setEx (session_key sessionId) (session_ttl w') s' w' of
                Inl e \<Rightarrow> (False, w')
              | Inr w'' \<Rightarrow> (True, w'')))"

text \<open>Histories of the session store: the three operations in any order, with time passing,
  the Redis connection dropping or coming back, and the configured TTL changing in between.\<close>

datatype session_op =
    Create
  | Append string content content
  | Clear string
  | Tick nat
  | Connection bool
  | Configure "int option"

fun session_step :: "world \<Rightarrow> session_op \<Rightarrow> world" where
  "session_step w Create = snd (createSession w)"
| "session_step w (Append sid u b) = snd (updateSessionActivity sid u b w)"
| "session_step w (Clear sid) = snd (clearSession sid w)"
| "session_step w (Tick n) = w\<lparr>clock := clock w + n\<rparr>"
| "session_step w (Connection b) = w\<lparr>ready := b\<rparr>"
| "session_step w (Configure t) = w\<lparr>SESSION_TTL := t\<rparr>"

definition session_run :: "session_op list \<Rightarrow> world \<Rightarrow> world" where
  "session_run ops w = foldl session_step w ops"

definition fresh_world :: world where
  "fresh_world = \<lparr>store = Map.empty, clock = 0, ready = True, SESSION_TTL = None, uuids = 0\<rparr>"

text \<open>The invariant of the stored sessions.\<close>

definition counts_agree :: "world \<Rightarrow> bool" where
  "counts_agree w = (\<forall>k s e. store w k = Some (s, e) \<longrightarrow> messageCount s = length (messages s))"

section \<open>Chat route: \<^verbatim>\<open>POST /message\<close>\<close>

text \<open>The parsed request body. A field is \<open>None\<close> when the body does not carry it.\<close>

record message_request =
  req_message :: "string option"
  req_sessionId :: "string option"
  req_topK :: "nat option"

text \<open>What routes/chat.js finds on the module \<^verbatim>\<open>services/ragService\<close> under the name it
  imports. The member is \<open>None\<close> when the module object has no property of that name: the
  destructuring gives \<^verbatim>\<open>undefined\<close>, and calling it throws a TypeError.\<close>

record rag_members =
  imported_processRAGQuery :: "(string \<Rightarrow> string \<Rightarrow> nat \<Rightarrow> error + response) option"

text \<open>The module as the repository defines it: services/ragService.js exports an instance
  of \<^verbatim>\<open>RagService\<close>, whose members are \<^verbatim>\<open>collectionName\<close>, \<^verbatim>\<open>embedQuery\<close>,
  \<^verbatim>\<open>retrieveRelevantDocs\<close>, \<^verbatim>\<open>formatContext\<close> and \<^verbatim>\<open>answerQuery\<close>. It has no
  \<^verbatim>\<open>processRAGQuery\<close>.\<close>

definition ragService :: rag_members where
  "ragService = \<lparr>imported_processRAGQuery = None\<rparr>"

text \<open>The handler of \<^verbatim>\<open>POST /message\<close>, over the module it imports from. Both results of
  \<open>updateSessionActivity\<close> are dropped, as in the source. The call of the imported name
  stands inside the \<^verbatim>\<open>try\<close>: when the name is \<^verbatim>\<open>undefined\<close> the call throws, after the user
  message has been recorded, and the \<^verbatim>\<open>catch\<close> answers 500.\<close>

definition postMessage :: "rag_members \<Rightarrow> message_request \<Rightarrow> world \<Rightarrow> reply \<times> world" where
  "postMessage rs req w =
     (let topK = (case req_topK req of None \<Rightarrow> 5 | Some k \<Rightarrow> k)
      in case (req_message req, req_sessionId req) of
           (Some message, Some sessionId) \<Rightarrow>
             if message = [] \<or> sessionId = []
             then (Reply 400 (Failure ''Message and sessionId are required''), w)
             else (let (ok1, w1) = updateSessionActivity sessionId (Text message) Null w
                   in case imported_processRAGQuery rs of
                        None \<Rightarrow> (Reply 500 (Failure ''Failed to process message''), w1)
                      | Some imported \<Rightarrow>
                          (case imported message sessionId topK of
                             Inl e \<Rightarrow> (Reply 500 (Failure ''Failed to process message''), w1)
                           | Inr response \<Rightarrow>
                               (let (ok2, w2) = updateSessionActivity sessionId Null (Resp response) w1
                                in (Reply 200 (MessageOk response sessionId (clock w2)), w2))))
         | _ \<Rightarrow> (Reply 400 (Failure ''Message and sessionId are required''), w))"

section \<open>External services\<close>

text \<open>An embedding. Its components are IEEE doubles in the program; nothing below computes
  with them, so they are idealised as reals.\<close>

type_synonym vector = "real list"

text \<open>A search hit of the vector store. \<open>hit_payload\<close> is \<open>None\<close> when the hit carries no
  payload.\<close>

record payload =
  title :: string
  summary :: string
  url :: string
  content :: string
  source :: string

record hit =
  hit_score :: real
  hit_payload :: "payload option"

text \<open>The options object passed to \<^verbatim>\<open>qdrant.client.search\<close>; an option the caller leaves
  out is \<open>None\<close>. \<open>vector\<close> is \<open>None\<close> when the caller passes \<^verbatim>\<open>undefined\<close>.\<close>

record search_params =
  vector :: "vector option"
  limit :: nat
  score_threshold :: "real option"
  with_payload :: "bool option"

text \<open>The error of a failed \<^verbatim>\<open>generateContent\<close> call, with its \<^verbatim>\<open>status\<close> if it has one.\<close>

datatype gen_error = GenError "nat option"

definition status :: "gen_error \<Rightarrow> nat option" where
  "status e = (case e of GenError st \<Rightarrow> st)"

text \<open>The calls a query makes to the outside, in the order they are made.\<close>

datatype call =
    EmbedCall "string list"
  | SearchCall string search_params
  | GenerateCall string
  | Sleep nat
  | EmbeddingCall string
  | AnswerCall string
  | CacheRead string string
  | CacheWrite string string string

text \<open>What the outside answers: the embedding model (\<^verbatim>\<open>batchEmbedContents\<close>, giving the
  \<^verbatim>\<open>values\<close> of each returned embedding), the vector store, and the language model, whose
  answer to a prompt may differ from one attempt to the next (the first argument of
  \<open>generateContent\<close> numbers the attempts). \<open>collectionName\<close> is the exported
  \<^verbatim>\<open>qdrant.collectionName\<close>.\<close>

record services =
  batchEmbedContents :: "string list \<Rightarrow> error + vector option list"
  qdrant_search :: "string \<Rightarrow> search_params \<Rightarrow> error + hit list"
  generateContent :: "nat \<Rightarrow> string \<Rightarrow> gen_error + string"
  collectionName :: string

definition nl :: string where
  "nl = [CHR 0x0A]"

fun join :: "string \<Rightarrow> string list \<Rightarrow> string" where
  "join sep [] = []"
| "join sep [x] = x"
| "join sep (x # y # ys) = x @ sep @ join sep (y # ys)"

section \<open>Embedding client (config/embeddings.js)\<close>

text \<open>\<^verbatim>\<open>embed(texts)\<close>: an empty input returns at once, any failure of the upstream call is
  rethrown as one fixed error, and the vectors are returned as the upstream gave them.\<close>

definition embed :: "services \<Rightarrow> string list \<Rightarrow> (error + vector option list) \<times> call list" where
  "embed sv texts =
     (if texts = [] then (Inr [], [])
      else (case batchEmbedContents sv texts of
              Inl e \<Rightarrow> Inl (Error ''Failed to create embeddings'')
            | Inr embeddings \<Rightarrow> Inr embeddings,
            [EmbedCall texts]))"

text \<open>\<^verbatim>\<open>embedSingle(text)\<close>: element 0 of the result, \<^verbatim>\<open>undefined\<close> when there is none.\<close>

definition embedSingle :: "services \<Rightarrow> string \<Rightarrow> (error + vector option) \<times> call list" where
  "embedSingle sv text =
     (case embed sv [text] of
        (Inl e, t) \<Rightarrow> (Inl e, t)
      | (Inr embeddings, t) \<Rightarrow> (Inr (case embeddings of [] \<Rightarrow> None | v # rest \<Rightarrow> v), t))"

section \<open>Query processor of the server (server.js)\<close>

text \<open>The fixed strings of server.js; characters outside ASCII are given by their UTF-8
  bytes.\<close>

definition apology :: string where
  "apology = [CHR 0xE2, CHR 0x9A, CHR 0xA0, CHR 0xEF, CHR 0xB8, CHR 0x8F] @ '' Sorry, I couldn''
     @ [CHR 0xE2, CHR 0x80, CHR 0x99] @ ''t generate a response right now.''"

definition noInformation :: string where
  "noInformation = ''I couldn'' @ [CHR 0xE2, CHR 0x80, CHR 0x99]
     @ ''t find any relevant information from the stored news articles.''"

text \<open>\<^verbatim>\<open>safeGenerateContent(model, prompt, retries)\<close>, from attempt \<open>i\<close> on. The result is
  \<open>None\<close> when the loop ends without a \<^verbatim>\<open>return\<close>. In the \<^verbatim>\<open>catch\<close> block an error with
  status 503 before the last attempt waits and continues; an error on the last attempt
  returns the apology; any other error falls out of the block, and the loop goes on.\<close>

function safeGenerateContent_from ::
  "(nat \<Rightarrow> string \<Rightarrow> gen_error + string) \<Rightarrow> string \<Rightarrow> nat \<Rightarrow> nat \<Rightarrow> string option \<times> call list" where
  "safeGenerateContent_from model prompt retries i =
     (if i < retries
      then (case model i prompt of
              Inr text \<Rightarrow> (Some text, [GenerateCall prompt])
            | Inl err \<Rightarrow>
                if status err = Some 503 \<and> i < retries - 1
                then (case safeGenerateContent_from model prompt retries (i + 1) of
                        (r, t) \<Rightarrow> (r, GenerateCall prompt # Sleep (1000 * 2 ^ i) # t))
                else if i = retries - 1
                then (Some apology, [GenerateCall prompt])
                else (case safeGenerateContent_from model prompt retries (i + 1) of
                        (r, t) \<Rightarrow> (r, GenerateCall prompt # t)))
      else (None, []))"
  by pat_completeness auto
termination
  by (relation "measure (\<lambda>(model, prompt, retries, i). retries - i)") auto

declare safeGenerateContent_from.simps [simp del]

definition safeGenerateContent ::
  "(nat \<Rightarrow> string \<Rightarrow> gen_error + string) \<Rightarrow> string \<Rightarrow> nat \<Rightarrow> string option \<times> call list" where
  "safeGenerateContent model prompt retries = safeGenerateContent_from model prompt retries 0"

definition articleBlock :: "nat \<times> payload \<Rightarrow> string" where
  "articleBlock ip =
     (case ip of (i, p) \<Rightarrow>
        ''Article '' @ decimal (i + 1) @ '': '' @ title p @ nl @ ''Content: '' @ summary p)"

definition ragPrompt :: "string \<Rightarrow> string \<Rightarrow> string" where
  \<open>ragPrompt context query =
     ''You are a helpful news assistant. Based on the following news articles, provide a concise answer to the user's question.'' @ nl
     @ ''If the articles don't contain the answer, say that you couldn't find relevant information.'' @ nl
     @ nl
     @ ''--- CONTEXT FROM NEWS ARTICLES ---'' @ nl
     @ context @ nl
     @ ''------------------------------------'' @ nl
     @ nl
     @ ''User's Question: "'' @ query @ ''"'' @ nl
     @ nl
     @ ''Answer:''\<close>

text \<open>The search options of the server: three hits at most, score at least 0.5.\<close>

definition serverSearch :: "vector option \<Rightarrow> search_params" where
  "serverSearch queryEmbedding =
     \<lparr>vector = queryEmbedding, limit = 3, score_threshold = Some 0.5, with_payload = None\<rparr>"

text \<open>\<^verbatim>\<open>processRAGQuery(query, sessionId)\<close>. Nothing here catches: a failure of the embedding
  call or of the search is the result of the function.\<close>

definition processRAGQuery :: "services \<Rightarrow> string \<Rightarrow> string \<Rightarrow> (error + response) \<times> call list" where
  "processRAGQuery sv query sessionId =
     (case embedSingle sv query of
        (Inl e, t1) \<Rightarrow> (Inl e, t1)
      | (Inr queryEmbedding, t1) \<Rightarrow>
          (let params = serverSearch queryEmbedding;
               t2 = t1 @ [SearchCall (collectionName sv) params]
           in case qdrant_search sv (collectionName sv) params of
                Inl e \<Rightarrow> (Inl e, t2)
              | Inr searchResults \<Rightarrow>
                  if length searchResults = 0
                  then (Inr \<lparr>answer = Some noInformation, sources = [],
                              hasRelevantContext = False\<rparr>, t2)
                  else (case those (map hit_payload searchResults) of
                          None \<Rightarrow> (Inl (Error ''Cannot read properties of undefined''), t2)
                        | Some payloads \<Rightarrow>
                            (let srcs = map (\<lambda>p. \<lparr>src_title = title p, src_url = url p\<rparr>) payloads;
                                 context = join (nl @ nl @ ''---'' @ nl @ nl)
                                             (map articleBlock (enumerate 0 payloads));
                                 prompt = ragPrompt context query
                             in case safeGenerateContent (generateContent sv) prompt 3 of
                                  (text, t3) \<Rightarrow>
                                    (Inr \<lparr>answer = text, sources = srcs,
                                           hasRelevantContext = True\<rparr>, t2 @ t3)))))"





text \<open>Services for concrete runs: the embedding model returns one vector per text, the
  language model answers at once, and the vector store behaves as given.\<close>

definition sample_services :: "(string \<Rightarrow> search_params \<Rightarrow> error + hit list) \<Rightarrow> services" where
  "sample_services search =
     \<lparr>batchEmbedContents = (\<lambda>texts. Inr (map (\<lambda>t. Some [1, 0]) texts)),
      qdrant_search = search,
      generateContent = (\<lambda>i p. Inr ''generated''),
      collectionName = ''news_articles''\<rparr>"

definition no_hits :: "string \<Rightarrow> search_params \<Rightarrow> error + hit list" where
  "no_hits c p = Inr []"

definition unreachable :: "string \<Rightarrow> search_params \<Rightarrow> error + hit list" where
  "unreachable c p = Inl (Error ''connect ECONNREFUSED'')"

text \<open>The \<^verbatim>\<open>send-message\<close> handler of the socket: the response goes to the requesting socket
  as a \<^verbatim>\<open>bot-response\<close> event; any exception becomes an \<^verbatim>\<open>error\<close> event.\<close>

datatype event =
    BotResponse string string response nat
  | ErrorEvent string

definition sendMessage :: "services \<Rightarrow> string \<Rightarrow> string \<Rightarrow> string \<Rightarrow> nat \<Rightarrow> event \<times> call list" where
  "sendMessage sv sessionId msg uuid now =
     (case processRAGQuery sv msg sessionId of
        (Inl e, t) \<Rightarrow> (ErrorEvent ''Failed to process your message. Please try again.'', t)
      | (Inr response, t) \<Rightarrow> (BotResponse uuid sessionId response now, t))"

section \<open>RAG service (services/ragService.js)\<close>

text \<open>What ragService.js finds on the modules it requires, for the members it calls. A
  member is \<open>None\<close> when the module object has no property of that name; calling it throws
  a TypeError. \<open>'c\<close> is the state of the cache.\<close>

record 'c cache_members =
  getCachedResponse :: "(string \<Rightarrow> string \<Rightarrow> 'c \<Rightarrow> error + string option) option"
  cacheResponse :: "(string \<Rightarrow> string \<Rightarrow> string \<Rightarrow> 'c \<Rightarrow> error + 'c) option"

record embeddings_members =
  generateEmbedding :: "(string \<Rightarrow> error + vector) option"

record gemini_members =
  generateAnswer :: "(string \<Rightarrow> error + string) option"

text \<open>The modules as the repository defines them. The \<^verbatim>\<open>CacheService\<close> class declares
  \<^verbatim>\<open>cacheQueryResult\<close>, \<^verbatim>\<open>getCachedQueryResult\<close>, \<^verbatim>\<open>getSessionFromCache\<close>,
  \<^verbatim>\<open>updateSessionCache\<close>, \<^verbatim>\<open>warmCache\<close>, \<^verbatim>\<open>getQueryCacheKey\<close>, \<^verbatim>\<open>clearCache\<close> and
  \<^verbatim>\<open>getCacheStats\<close>; the embeddings client declares \<^verbatim>\<open>embed\<close> and \<^verbatim>\<open>embedSingle\<close>; the
  Gemini module exports \<^verbatim>\<open>model\<close>, \<^verbatim>\<open>generateResponse\<close> and \<^verbatim>\<open>generateStreamingResponse\<close>.
  None of them has a member that ragService.js calls.\<close>

definition cacheService :: "'c cache_members" where
  "cacheService = \<lparr>getCachedResponse = None, cacheResponse = None\<rparr>"

definition embeddings :: embeddings_members where
  "embeddings = \<lparr>generateEmbedding = None\<rparr>"

definition gemini :: gemini_members where
  "gemini = \<lparr>generateAnswer = None\<rparr>"

definition somethingWentWrong :: string where
  "somethingWentWrong = ''Something went wrong while processing your query.''"

definition noRelevantInformation :: string where
  \<open>noRelevantInformation = ''I couldn't find relevant information in the provided news.''\<close>

text \<open>\<^verbatim>\<open>embedQuery(query)\<close>: whatever goes wrong is rethrown as one fixed error.\<close>

definition embedQuery :: "embeddings_members \<Rightarrow> string \<Rightarrow> (error + vector) \<times> call list" where
  "embedQuery em query =
     (case generateEmbedding em of
        None \<Rightarrow> (Inl (Error ''Embedding generation failed''), [])
      | Some f \<Rightarrow>
          (case f query of
             Inl e \<Rightarrow> Inl (Error ''Embedding generation failed'')
           | Inr v \<Rightarrow> Inr v,
           [EmbeddingCall query]))"

text \<open>\<^verbatim>\<open>this.collectionName = qdrant.collectionName || "news_articles"\<close>.\<close>

definition ragCollectionName :: "services \<Rightarrow> string" where
  "ragCollectionName sv = (if collectionName sv = [] then ''news_articles'' else collectionName sv)"

text \<open>\<^verbatim>\<open>retrieveRelevantDocs(queryEmbedding, k)\<close>: a failed search is caught and gives the
  empty list.\<close>

definition retrieveRelevantDocs :: "services \<Rightarrow> vector \<Rightarrow> nat \<Rightarrow> hit list \<times> call list" where
  "retrieveRelevantDocs sv queryEmbedding k =
     (let params = \<lparr>vector = Some queryEmbedding, limit = k, score_threshold = None,
                    with_payload = Some True\<rparr>
      in (case qdrant_search sv (ragCollectionName sv) params of
            Inl e \<Rightarrow> []
          | Inr results \<Rightarrow> results,
          [SearchCall (ragCollectionName sv) params]))"

definition documentBlock :: "nat \<times> hit \<Rightarrow> string" where
  "documentBlock entry =
     (case entry of (idx, doc) \<Rightarrow>
        (let src = (case hit_payload doc of None \<Rightarrow> [] | Some p \<Rightarrow> source p);
             body = (case hit_payload doc of None \<Rightarrow> [] | Some p \<Rightarrow> content p)
         in ''Document '' @ decimal (idx + 1) @ '' ['' @ (if src = [] then ''unknown'' else src)
            @ '']:'' @ nl @ body))"

definition formatContext :: "hit list \<Rightarrow> string" where
  "formatContext results =
     (if results = [] then [] else join (nl @ nl) (map documentBlock (enumerate 0 results)))"

definition answerPrompt :: "string \<Rightarrow> string \<Rightarrow> string" where
  "answerPrompt context query =
     ''You are a news assistant. Use the following retrieved articles to answer the question.''
     @ nl @ nl @ ''Context:'' @ nl @ context @ nl @ nl @ ''Question: '' @ query @ nl @ ''Answer:''"

text \<open>\<^verbatim>\<open>answerQuery(sessionId, query)\<close> after the cache lookup has missed. Every exception
  inside is caught by the \<^verbatim>\<open>catch\<close> of \<open>answerQuery\<close> and becomes one fixed answer.\<close>

definition answerUncached ::
  "'c cache_members \<Rightarrow> embeddings_members \<Rightarrow> gemini_members \<Rightarrow> services
     \<Rightarrow> string \<Rightarrow> string \<Rightarrow> 'c \<Rightarrow> string \<times> 'c \<times> call list" where
  "answerUncached cm em gm sv sessionId query c =
     (case embedQuery em query of
        (Inl e, t1) \<Rightarrow> (somethingWentWrong, c, t1)
      | (Inr queryEmbedding, t1) \<Rightarrow>
          (case retrieveRelevantDocs sv queryEmbedding 5 of
             (results, t2) \<Rightarrow>
               if length results = 0 then (noRelevantInformation, c, t1 @ t2)
               else (let prompt = answerPrompt (formatContext results) query
                     in case generateAnswer gm of
                          None \<Rightarrow> (somethingWentWrong, c, t1 @ t2)
                        | Some generate \<Rightarrow>
                            (case generate prompt of
                               Inl e \<Rightarrow> (somethingWentWrong, c, t1 @ t2 @ [AnswerCall prompt])
                             | Inr text \<Rightarrow>
                                 (case cacheResponse cm of
                                    None \<Rightarrow> (somethingWentWrong, c, t1 @ t2 @ [AnswerCall prompt])
                                  | Some cache \<Rightarrow>
                                      (case cache sessionId query text c of
                                         Inl e \<Rightarrow>
                                           (somethingWentWrong, c,
                                            t1 @ t2 @ [AnswerCall prompt, CacheWrite sessionId query text])
                                       | Inr c' \<Rightarrow>
                                           (if text = [] then noRelevantInformation else text, c',
                                            t1 @ t2 @ [AnswerCall prompt, CacheWrite sessionId query text])))))))"

text \<open>\<^verbatim>\<open>answerQuery(sessionId, query)\<close>: a truthy cached value is returned as it is.\<close>

definition answerQuery ::
  "'c cache_members \<Rightarrow> embeddings_members \<Rightarrow> gemini_members \<Rightarrow> services
     \<Rightarrow> string \<Rightarrow> string \<Rightarrow> 'c \<Rightarrow> string \<times> 'c \<times> call list" where
  "answerQuery cm em gm sv sessionId query c =
     (case getCachedResponse cm of
        None \<Rightarrow> (somethingWentWrong, c, [])
      | Some lookup \<Rightarrow>
          (case lookup sessionId query c of
             Inl e \<Rightarrow> (somethingWentWrong, c, [CacheRead sessionId query])
           | Inr cached \<Rightarrow>
               (case cached of
                  Some text \<Rightarrow>
                    if text \<noteq> [] then (text, c, [CacheRead sessionId query])
                    else (case answerUncached cm em gm sv sessionId query c of
                            (a, c', t) \<Rightarrow> (a, c', CacheRead sessionId query # t))
                | None \<Rightarrow>
                    (case answerUncached cm em gm sv sessionId query c of
                       (a, c', t) \<Rightarrow> (a, c', CacheRead sessionId query # t)))))"

section \<open>Ingestion: the embeddings of a batch (scripts/ingestNews.js)\<close>



















section \<open>Socket bindings (server.js)\<close>

text \<open>The state of the duplex channel: the live sockets with the rooms each one is in
  (\<^verbatim>\<open>io.sockets.sockets\<close> and \<^verbatim>\<open>socket.rooms\<close>; a new socket is in the room named by its own
  id), and the \<^verbatim>\<open>connectedSessions\<close> map from session id to socket id, in insertion order.\<close>

record channel =
  sockets :: "string \<rightharpoonup> string set"
  connectedSessions :: "(string \<times> string) list"

text \<open>\<^verbatim>\<open>Map.prototype.set\<close>: an existing key keeps its place.\<close>

fun map_set :: "string \<Rightarrow> string \<Rightarrow> (string \<times> string) list \<Rightarrow> (string \<times> string) list" where
  "map_set k v [] = [(k, v)]"
| "map_set k v ((k', v') # rest) = (if k' = k then (k, v) # rest else (k', v') # map_set k v rest)"

text \<open>The loop of the \<^verbatim>\<open>disconnect\<close> handler: the first entry whose value is the socket is
  deleted, and the loop stops there.\<close>

fun delete_first :: "string \<Rightarrow> (string \<times> string) list \<Rightarrow> (string \<times> string) list" where
  "delete_first socketId [] = []"
| "delete_first socketId ((k, v) # rest) =
     (if v = socketId then rest else (k, v) # delete_first socketId rest)"

definition leave :: "string \<Rightarrow> string \<Rightarrow> channel \<Rightarrow> channel" where
  "leave socketId room st =
     (case sockets st socketId of
        None \<Rightarrow> st
      | Some rooms \<Rightarrow> st\<lparr>sockets := (sockets st)(socketId \<mapsto> rooms - {room})\<rparr>)"

definition connect :: "string \<Rightarrow> channel \<Rightarrow> channel" where
  "connect socketId st =
     (case sockets st socketId of
        None \<Rightarrow> st\<lparr>sockets := (sockets st)(socketId \<mapsto> {socketId})\<rparr>
      | Some rooms \<Rightarrow> st)"

text \<open>The \<^verbatim>\<open>join-session\<close> handler of a live socket: leave every room but the own one, make
  the socket recorded for the session (if it is still live) leave the session's room, then
  join the room and record the binding.\<close>

definition joinSession :: "string \<Rightarrow> string \<Rightarrow> channel \<Rightarrow> channel" where
  "joinSession socketId sessionId st =
     (case sockets st socketId of
        None \<Rightarrow> st
      | Some rooms \<Rightarrow>
          (let st1 = st\<lparr>sockets := (sockets st)(socketId \<mapsto> {room \<in> rooms. room = socketId})\<rparr>;
               st2 = (case map_of (connectedSessions st1) sessionId of
                        None \<Rightarrow> st1
                      | Some existingSocketId \<Rightarrow> leave existingSocketId sessionId st1);
               rooms2 = (case sockets st2 socketId of None \<Rightarrow> {} | Some rs \<Rightarrow> rs)
           in st2\<lparr>sockets := (sockets st2)(socketId \<mapsto> insert sessionId rooms2),
                  connectedSessions := map_set sessionId socketId (connectedSessions st2)\<rparr>))"

text \<open>The \<^verbatim>\<open>disconnect\<close> handler; the socket is gone from every room.\<close>

definition disconnect :: "string \<Rightarrow> channel \<Rightarrow> channel" where
  "disconnect socketId st =
     (case sockets st socketId of
        None \<Rightarrow> st
      | Some rooms \<Rightarrow>
          st\<lparr>sockets := (sockets st)(socketId := None),
              connectedSessions := delete_first socketId (connectedSessions st)\<rparr>)"

text \<open>The \<^verbatim>\<open>send-message\<close> handler of a live socket answers with \<^verbatim>\<open>socket.emit\<close>: the event
  goes to the socket that sent the message. Neither \<^verbatim>\<open>connectedSessions\<close> nor the rooms are
  looked at, and the session id is whatever the message carries.\<close>

definition onSendMessage ::
  "services \<Rightarrow> channel \<Rightarrow> string \<Rightarrow> string \<Rightarrow> string \<Rightarrow> string \<Rightarrow> nat \<Rightarrow> (string \<times> event) list" where
  "onSendMessage sv st socketId sessionId msg uuid now =
     (case sockets st socketId of
        None \<Rightarrow> []
      | Some rooms \<Rightarrow> [(socketId, fst (sendMessage sv sessionId msg uuid now))])"

datatype socket_event =
    Connect string
  | Join string string
  | Disconnect string

fun channel_step :: "channel \<Rightarrow> socket_event \<Rightarrow> channel" where
  "channel_step st (Connect s) = connect s st"
| "channel_step st (Join s sessionId) = joinSession s sessionId st"
| "channel_step st (Disconnect s) = disconnect s st"

definition channel_run :: "socket_event list \<Rightarrow> channel" where
  "channel_run evs = foldl channel_step \<lparr>sockets = Map.empty, connectedSessions = []\<rparr> evs"

text \<open>The delivery group of a room: the live sockets that are in it. A socket is in the room
  named by its own id from its connection on.\<close>

definition in_room :: "channel \<Rightarrow> string \<Rightarrow> string \<Rightarrow> bool" where
  "in_room st socketId room =
     (case sockets st socketId of
        None \<Rightarrow> False
      | Some rooms \<Rightarrow> room \<in> rooms)"

text \<open>The invariant: whoever is in a room that is not its own is the socket recorded for
  that room's name in \<^verbatim>\<open>connectedSessions\<close>.\<close>

definition members_recorded :: "channel \<Rightarrow> bool" where
  "members_recorded st =
     (\<forall>t S. in_room st t S \<and> t \<noteq> S \<longrightarrow> map_of (connectedSessions st) S = Some t)"

section \<open>Cache keys (services/cacheService.js)\<close>

text \<open>A JavaScript string is a sequence of UTF-16 code units. A \<^verbatim>\<open>Buffer\<close> is a sequence of
  bytes, kept as numbers below 256.\<close>

type_synonym jsstring = "16 word list"

definition isHighSurrogate :: "16 word \<Rightarrow> bool" where
  "isHighSurrogate u = (0xD800 \<le> unat u \<and> unat u \<le> 0xDBFF)"

definition isLowSurrogate :: "16 word \<Rightarrow> bool" where
  "isLowSurrogate u = (0xDC00 \<le> unat u \<and> unat u \<le> 0xDFFF)"

text \<open>The code points that \<^verbatim>\<open>Buffer.from(string)\<close> encodes: a high surrogate followed by a
  low one is one supplementary code point; a surrogate on its own is replaced by U+FFFD.\<close>

definition single :: "16 word \<Rightarrow> nat" where
  "single u = (if isHighSurrogate u \<or> isLowSurrogate u then 0xFFFD else unat u)"

definition supplementary :: "16 word \<Rightarrow> 16 word \<Rightarrow> nat" where
  "supplementary u l = 0x10000 + (unat u - 0xD800) * 0x400 + (unat l - 0xDC00)"

fun codePoints :: "jsstring \<Rightarrow> nat list" where
  "codePoints [] = []"
| "codePoints [u] = [single u]"
| "codePoints (u # l # rest) =
     (if isHighSurrogate u \<and> isLowSurrogate l
      then supplementary u l # codePoints rest
      else single u # codePoints (l # rest))"

text \<open>UTF-8 of one code point.\<close>

definition utf8 :: "nat \<Rightarrow> nat list" where
  "utf8 cp =
     (if cp < 0x80 then [cp]
      else if cp < 0x800 then [0xC0 + cp div 64, 0x80 + cp mod 64]
      else if cp < 0x10000 then [0xE0 + cp div 4096, 0x80 + cp div 64 mod 64, 0x80 + cp mod 64]
      else [0xF0 + cp div 262144, 0x80 + cp div 4096 mod 64, 0x80 + cp div 64 mod 64,
            0x80 + cp mod 64])"

definition bufferFrom :: "jsstring \<Rightarrow> nat list" where
  "bufferFrom s = concat (map utf8 (codePoints s))"

text \<open>\<^verbatim>\<open>toString('base64')\<close>.\<close>

definition b64chars :: string where
  "b64chars = ''ABCDEFGHIJKLMNOPQRSTUVWXYZabcdefghijklmnopqrstuvwxyz0123456789+/''"

definition b64 :: "nat \<Rightarrow> char" where
  "b64 n = b64chars ! n"

fun base64 :: "nat list \<Rightarrow> string" where
  "base64 [] = []"
| "base64 [a] = [b64 (a div 4), b64 (a mod 4 * 16), CHR ''='', CHR ''='']"
| "base64 [a, b] = [b64 (a div 4), b64 (a mod 4 * 16 + b div 16), b64 (b mod 16 * 4), CHR ''='']"
| "base64 (a # b # c # rest) =
     [b64 (a div 4), b64 (a mod 4 * 16 + b div 16), b64 (b mod 16 * 4 + c div 64), b64 (c mod 64)]
     @ base64 rest"

text \<open>\<^verbatim>\<open>String.prototype.trim\<close>: white space and line terminators are removed at both ends.\<close>

definition isWhiteSpace :: "16 word \<Rightarrow> bool" where
  "isWhiteSpace u =
     (u \<in> {0x9, 0xA, 0xB, 0xC, 0xD, 0x20, 0xA0, 0x1680, 0x2028, 0x2029, 0x202F, 0x205F, 0x3000, 0xFEFF}
      \<or> (0x2000 \<le> unat u \<and> unat u \<le> 0x200A))"

definition trim :: "jsstring \<Rightarrow> jsstring" where
  "trim s = rev (dropWhile isWhiteSpace (rev (dropWhile isWhiteSpace s)))"

text \<open>\<^verbatim>\<open>query.toLowerCase().trim()\<close>. \<^verbatim>\<open>toLowerCase\<close> follows the case tables of Unicode; it
  is a parameter here.\<close>

definition normalizeQuery :: "(jsstring \<Rightarrow> jsstring) \<Rightarrow> jsstring \<Rightarrow> jsstring" where
  "normalizeQuery toLowerCase query = trim (toLowerCase query)"

text \<open>\<^verbatim>\<open>getQueryCacheKey(query)\<close>.\<close>

definition getQueryCacheKey :: "(jsstring \<Rightarrow> jsstring) \<Rightarrow> jsstring \<Rightarrow> string" where
  "getQueryCacheKey toLowerCase query =
     ''query:'' @ base64 (bufferFrom (normalizeQuery toLowerCase query))"

text \<open>\<^verbatim>\<open>toLowerCase\<close> as it acts on strings whose cased characters are Basic Latin letters,
  for concrete runs.\<close>

definition lowerBasicLatin :: "jsstring \<Rightarrow> jsstring" where
  "lowerBasicLatin s = map (\<lambda>u. if 0x41 \<le> unat u \<and> unat u \<le> 0x5A then u + 0x20 else u) s"

text \<open>An ASCII literal as a JavaScript string.\<close>

definition js :: "string \<Rightarrow> jsstring" where
  "js s = map (\<lambda>c. of_nat (of_char c)) s"

text \<open>A string is well formed when it has no surrogate on its own.\<close>

fun wellFormed :: "jsstring \<Rightarrow> bool" where
  "wellFormed [] = True"
| "wellFormed [u] = (\<not> isHighSurrogate u \<and> \<not> isLowSurrogate u)"
| "wellFormed (u # l # rest) =
     (if isHighSurrogate u then isLowSurrogate l \<and> wellFormed rest
      else \<not> isLowSurrogate u \<and> wellFormed (l # rest))"

text \<open>Reading one code point back from the front of a UTF-8 byte sequence.\<close>

definition utf8_front :: "nat list \<Rightarrow> nat \<times> nat list" where
  "utf8_front bs =
     (if hd bs < 0x80 then (hd bs, tl bs)
      else if hd bs < 0xE0 then ((hd bs - 0xC0) * 64 + (bs ! 1 - 0x80), drop 2 bs)
      else if hd bs < 0xF0
      then ((hd bs - 0xE0) * 4096 + (bs ! 1 - 0x80) * 64 + (bs ! 2 - 0x80), drop 3 bs)
      else ((hd bs - 0xF0) * 262144 + (bs ! 1 - 0x80) * 4096 + (bs ! 2 - 0x80) * 64
              + (bs ! 3 - 0x80), drop 4 bs))"

section \<open>Query cache (services/cacheService.js)\<close>

text \<open>The value stored under a query key, \<^verbatim>\<open>{ result, timestamp, query }\<close>, and what a hit
  returns: the stored result with \<^verbatim>\<open>fromCache\<close> and \<^verbatim>\<open>cachedAt\<close> added.\<close>

record cache_entry =
  ce_result :: response
  ce_timestamp :: nat
  ce_query :: jsstring

record cached_response =
  cr_result :: response
  fromCache :: bool
  cachedAt :: nat

text \<open>The outside world of the query cache: the Redis keys that hold query results, each with
  the time at which it expires, the wall clock, whether the connection works, and the parsed
  \<^verbatim>\<open>process.env.CACHE_TTL\<close>.\<close>

record cache_world =
  cache_store :: "string \<rightharpoonup> cache_entry \<times> nat"
  cache_clock :: nat
  cache_ready :: bool
  CACHE_TTL :: "int option"

text \<open>\<^verbatim>\<open>this.defaultTTL = parseInt(process.env.CACHE_TTL) || 3600\<close>.\<close>

definition defaultTTL :: "cache_world \<Rightarrow> int" where
  "defaultTTL w = (case CACHE_TTL w of None \<Rightarrow> 3600 | Some n \<Rightarrow> if n = 0 then 3600 else n)"

text \<open>\<^verbatim>\<open>cacheQueryResult(query, result, ttl)\<close>: \<^verbatim>\<open>true\<close> when the entry is written, \<^verbatim>\<open>false\<close>
  when anything fails.\<close>

definition cacheQueryResult ::
  "(jsstring \<Rightarrow> jsstring) \<Rightarrow> jsstring \<Rightarrow> response \<Rightarrow> int option \<Rightarrow> cache_world \<Rightarrow> bool \<times> cache_world" where
  "cacheQueryResult toLowerCase query result ttl w =
     (let key = getQueryCacheKey toLowerCase query;
          data = \<lparr>ce_result = result, ce_timestamp = cache_clock w, ce_query = query\<rparr>;
          seconds = (case ttl of None \<Rightarrow> defaultTTL w | Some n \<Rightarrow> n)
      in if \<not> cache_ready w \<or> seconds \<le> 0 then (False, w)
         else (True, w\<lparr>cache_store := (cache_store w)(key \<mapsto> (data, cache_clock w + nat seconds))\<rparr>))"

text \<open>\<^verbatim>\<open>getCachedQueryResult(query)\<close>: \<^verbatim>\<open>null\<close> on a miss and on any failure.\<close>

definition getCachedQueryResult ::
  "(jsstring \<Rightarrow> jsstring) \<Rightarrow> jsstring \<Rightarrow> cache_world \<Rightarrow> cached_response option" where
  "getCachedQueryResult toLowerCase query w =
     (if \<not> cache_ready w then None
      else (case cache_store w (getQueryCacheKey toLowerCase query) of
              None \<Rightarrow> None
            | Some (data, expiry) \<Rightarrow>
                if cache_clock w < expiry
                then Some \<lparr>cr_result = ce_result data, fromCache = True, cachedAt = ce_timestamp data\<rparr>
                else None))"


section \<open>Session store: the message count\<close>

lemma setEx_counts:
  assumes "counts_agree w" and "messageCount v = length (messages v)"
    and "redis_setEx k ttl v w = Inr w'"
  shows "counts_agree w'"
proof -
  from assms(3) have w': "w' = w\<lparr>store := (store w)(k \<mapsto> (v, clock w + nat ttl))\<rparr>"
    by (simp add: redis_setEx_def split: if_splits)
  show ?thesis
    unfolding counts_agree_def
  proof (intro allI impI)
    fix k' s e
    assume "store w' k' = Some (s, e)"
    then have "s = v \<or> store w k' = Some (s, e)"
      by (auto simp: w' split: if_splits)
    then show "messageCount s = length (messages s)"
      using assms(1,2) unfolding counts_agree_def by blast
  qed
qed

lemma get_counts:
  assumes "counts_agree w" and "redis_get k w = Inr (Some s)"
  shows "messageCount s = length (messages s)"
proof -
  from assms(2) obtain e where "store w k = Some (s, e)"
    by (auto simp: redis_get_def split: if_splits option.splits)
  then show ?thesis
    using assms(1) unfolding counts_agree_def by blast
qed

lemma uuidv4_store [simp]: "store (snd (uuidv4 w)) = store w"
  by (simp add: uuidv4_def)

lemma counts_agree_uuidv4: "counts_agree (snd (uuidv4 w)) = counts_agree w"
  by (simp add: counts_agree_def)

lemma createSession_counts: "counts_agree w \<Longrightarrow> counts_agree (snd (createSession w))"
proof -
  assume inv: "counts_agree w"
  obtain sid w1 where u: "uuidv4 w = (sid, w1)" by (cases "uuidv4 w")
  have inv1: "counts_agree w1" using inv counts_agree_uuidv4 [of w] u by simp
  let ?d = "\<lparr>sess_id = sid, createdAt = clock w1, lastActivity = clock w1,
              messageCount = 0, messages = []\<rparr>"
  show ?thesis
  proof (cases "redis_setEx (session_key sid) (session_ttl w1) ?d w1")
    case (Inl e)
    then show ?thesis using inv1 u by (simp add: createSession_def)
  next
    case (Inr w2)
    then have "counts_agree w2" using setEx_counts [OF inv1 _ Inr] by simp
    then show ?thesis using Inr u by (simp add: createSession_def)
  qed
qed

lemma clearSession_counts: "counts_agree w \<Longrightarrow> counts_agree (snd (clearSession sid w))"
proof -
  assume inv: "counts_agree w"
  show ?thesis
  proof (cases "redis_get (session_key sid) w")
    case (Inl e)
    then show ?thesis using inv by (simp add: clearSession_def)
  next
    case (Inr r)
    show ?thesis
    proof (cases r)
      case None
      then show ?thesis using inv Inr by (simp add: clearSession_def)
    next
      case (Some s)
      let ?s = "s\<lparr>messages := [], messageCount := 0, lastActivity := clock w\<rparr>"
      show ?thesis
      proof (cases "redis_setEx (session_key sid) (session_ttl w) ?s w")
        case (Inl e)
        then show ?thesis using inv Inr Some by (simp add: clearSession_def)
      next
        case r2: (Inr w')
        then have "counts_agree w'" using setEx_counts [OF inv _ r2] by simp
        then show ?thesis using Inr Some r2 by (simp add: clearSession_def)
      qed
    qed
  qed
qed

lemma pushUser_store [simp]: "store (snd (pushUser u s w)) = store w"
  by (simp add: pushUser_def uuidv4_def)

lemma pushBot_store [simp]: "store (snd (pushBot b s w)) = store w"
  by (simp add: pushBot_def uuidv4_def)

lemma pushTurn_store [simp]: "store (snd (pushTurn u b s w)) = store w"
proof -
  obtain s1 w1 where p1: "pushUser u s w = (s1, w1)" by (cases "pushUser u s w")
  obtain s2 w2 where p2: "pushBot b s1 w1 = (s2, w2)" by (cases "pushBot b s1 w1")
  have "store w1 = store w" using pushUser_store [of u s w] p1 by simp
  moreover have "store w2 = store w1" using pushBot_store [of b s1 w1] p2 by simp
  ultimately show ?thesis by (simp add: pushTurn_def p1 p2)
qed

lemma pushTurn_count:
  "messageCount (fst (pushTurn u b s w)) = length (messages (fst (pushTurn u b s w)))"
proof -
  obtain s1 w1 where p1: "pushUser u s w = (s1, w1)" by (cases "pushUser u s w")
  obtain s2 w2 where p2: "pushBot b s1 w1 = (s2, w2)" by (cases "pushBot b s1 w1")
  show ?thesis by (simp add: pushTurn_def p1 p2)
qed

lemma updateSessionActivity_counts:
  "counts_agree w \<Longrightarrow> counts_agree (snd (updateSessionActivity sid u b w))"
proof -
  assume inv: "counts_agree w"
  show ?thesis
  proof (cases "redis_get (session_key sid) w")
    case (Inl e)
    then show ?thesis using inv by (simp add: updateSessionActivity_def)
  next
    case (Inr r)
    show ?thesis
    proof (cases r)
      case None
      then show ?thesis using inv Inr by (simp add: updateSessionActivity_def)
    next
      case (Some s)
      obtain s' w' where pt: "pushTurn u b s w = (s', w')" by (cases "pushTurn u b s w")
      have "store w' = store w" using pushTurn_store [of u b s w] pt by simp
      then have inv': "counts_agree w'" using inv by (simp add: counts_agree_def)
      have cnt: "messageCount s' = length (messages s')"
        using pushTurn_count [of u b s w] pt by simp
      show ?thesis
      proof (cases "redis_setEx (session_key sid) (session_ttl w') s' w'")
        case (Inl e)
        then show ?thesis
          using inv' Inr Some pt by (simp add: updateSessionActivity_def)
      next
        case r2: (Inr w3)
        have "counts_agree w3" by (rule setEx_counts [OF inv' cnt r2])
        then show ?thesis
          using Inr Some pt r2 by (simp add: updateSessionActivity_def)
      qed
    qed
  qed
qed

lemma session_step_counts: "counts_agree w \<Longrightarrow> counts_agree (session_step w x)"
proof (cases x)
  case Create
  then show "counts_agree w \<Longrightarrow> ?thesis" by (simp add: createSession_counts)
next
  case (Append sid u b)
  then show "counts_agree w \<Longrightarrow> ?thesis" by (simp add: updateSessionActivity_counts)
next
  case (Clear sid)
  then show "counts_agree w \<Longrightarrow> ?thesis" by (simp add: clearSession_counts)
next
  case (Tick n)
  then show "counts_agree w \<Longrightarrow> ?thesis" by (simp add: counts_agree_def)
next
  case (Connection b)
  then show "counts_agree w \<Longrightarrow> ?thesis" by (simp add: counts_agree_def)
next
  case (Configure t)
  then show "counts_agree w \<Longrightarrow> ?thesis" by (simp add: counts_agree_def)
qed

lemma foldl_session_step_counts:
  "counts_agree w \<Longrightarrow> counts_agree (foldl session_step w ops)"
  by (induction ops arbitrary: w) (simp_all add: session_step_counts)

text \<open>
  Claim C10. Starting from a store whose sessions have \<open>messageCount\<close> equal to the length
  of \<open>messages\<close> (the empty store in particular), every session found in the store after any
  sequence of create, \<open>updateSessionActivity\<close> and clear operations (with time passing, the
  connection failing and the TTL setting changing in between) has \<open>messageCount\<close> equal to
  the length of its \<open>messages\<close>.
\<close>

theorem session_messageCount_is_length:
  assumes "counts_agree w" and "store (session_run ops w) k = Some (s, e)"
  shows "messageCount s = length (messages s)"
proof -
  have "counts_agree (session_run ops w)"
    unfolding session_run_def by (rule foldl_session_step_counts [OF assms(1)])
  then show ?thesis
    using assms(2) unfolding counts_agree_def by blast
qed

lemma fresh_world_counts: "counts_agree fresh_world"
  by (simp add: counts_agree_def fresh_world_def)

lemma decimal_small:
  "decimal 0 = ''0''" "decimal 1 = ''1''" "decimal 2 = ''2''" "decimal 3 = ''3''"
  "decimal (Suc 0) = ''1''" "decimal (Suc (Suc 0)) = ''2''" "decimal (Suc (Suc (Suc 0))) = ''3''"
  by code_simp+

theorem session_messageCount_is_length_witness:
  "counts_agree fresh_world \<and>
   (\<exists>s e. store (session_run [Create, Append ''uuid-0'' (Text ''hello'') (Text ''hi''), Tick 5,
                                Append ''uuid-0'' (Text ''again'') Null] fresh_world)
              (session_key ''uuid-0'') = Some (s, e)
          \<and> length (messages s) = 3 \<and> messageCount s = length (messages s))"
proof -
  let ?w = "session_run [Create, Append ''uuid-0'' (Text ''hello'') (Text ''hi''), Tick 5,
                         Append ''uuid-0'' (Text ''again'') Null] fresh_world"
  have "\<exists>s e. store ?w (session_key ''uuid-0'') = Some (s, e) \<and> length (messages s) = 3"
    by (simp add: session_run_def fresh_world_def createSession_def updateSessionActivity_def
        pushTurn_def pushUser_def pushBot_def uuidv4_def redis_get_def redis_setEx_def
        session_ttl_def session_key_def decimal_small)
  then obtain s e where st: "store ?w (session_key ''uuid-0'') = Some (s, e)"
    and len: "length (messages s) = 3" by blast
  have "messageCount s = length (messages s)"
    by (rule session_messageCount_is_length [OF fresh_world_counts st])
  then show ?thesis using fresh_world_counts st len by blast
qed

section \<open>Chat route: what a turn answers\<close>

lemma updateSessionActivity_dropped:
  assumes "\<forall>s. redis_get (session_key sid) w \<noteq> Inr (Some s)"
  shows "updateSessionActivity sid u b w = (False, w)"
proof (cases "redis_get (session_key sid) w")
  case (Inl e)
  then show ?thesis by (simp add: updateSessionActivity_def)
next
  case (Inr r)
  then have "r = None" using assms by (cases r) auto
  then show ?thesis using Inr by (simp add: updateSessionActivity_def)
qed

lemma postMessage_repository:
  assumes "m \<noteq> []" and "sid \<noteq> []"
  shows "fst (postMessage ragService \<lparr>req_message = Some m, req_sessionId = Some sid, req_topK = k\<rparr> w)
           = Reply 500 (Failure ''Failed to process message'')"
  using assms by (simp add: postMessage_def ragService_def split: prod.splits)

text \<open>
  Claim C8, evaluated. A session is created and 90000 seconds pass, more than its 86400
  seconds to live; then \<^verbatim>\<open>POST /message\<close> arrives with its id. The key has expired, and
  \<open>updateSessionActivity\<close> reports \<open>False\<close> and leaves the store as it was, raising nothing:
  so far the claim holds. But no answer is returned to the user: the handler goes on to call
  the name it imported from the RAG service, which that module does not have, and answers
  500.
\<close>

theorem turn_on_expired_session_answers_500:
  "redis_get (session_key ''uuid-0'') (session_run [Create, Tick 90000] fresh_world) = Inr None
   \<and> updateSessionActivity ''uuid-0'' (Text ''hi'') Null (session_run [Create, Tick 90000] fresh_world)
       = (False, session_run [Create, Tick 90000] fresh_world)
   \<and> postMessage ragService
        \<lparr>req_message = Some ''hi'', req_sessionId = Some ''uuid-0'', req_topK = None\<rparr>
        (session_run [Create, Tick 90000] fresh_world)
       = (Reply 500 (Failure ''Failed to process message''),
          session_run [Create, Tick 90000] fresh_world)"
proof -
  have g: "redis_get (session_key ''uuid-0'') (session_run [Create, Tick 90000] fresh_world)
             = Inr None"
    by (simp add: session_run_def fresh_world_def createSession_def uuidv4_def redis_get_def
        redis_setEx_def session_ttl_def session_key_def decimal_small)
  then have "\<forall>s. redis_get (session_key ''uuid-0'') (session_run [Create, Tick 90000] fresh_world)
               \<noteq> Inr (Some s)"
    by simp
  then have d: "\<And>u b. updateSessionActivity ''uuid-0'' u b
                  (session_run [Create, Tick 90000] fresh_world)
               = (False, session_run [Create, Tick 90000] fresh_world)"
    by (rule updateSessionActivity_dropped)
  show ?thesis
    using g by (simp add: d postMessage_def ragService_def)
qed

text \<open>The call that the handler means for the bot response alone,
  \<^verbatim>\<open>updateSessionActivity(sessionId, null, response)\<close>, pushes two messages: a user message
  whose content is \<^verbatim>\<open>null\<close>, then the bot message.\<close>

lemma pushTurn_null_user:
  "map (\<lambda>m. (msg_type m, msg_content m)) (messages (fst (pushTurn Null (Resp r) s w)))
     = map (\<lambda>m. (msg_type m, msg_content m)) (messages s) @ [(User, Null), (Bot, Resp r)]"
  by (simp add: pushTurn_def pushUser_def pushBot_def uuidv4_def)

text \<open>
  Claim C4, evaluated. A session is created, then \<^verbatim>\<open>POST /message\<close> arrives with that
  session id and the message "What happened today?". The handler records the user message,
  then calls the name it imported from the RAG service; the module has no such member, the
  call throws, and the reply is 500 with no answer. The stored history has one message, the
  user message, not two.
\<close>

theorem postMessage_scenario_answers_500:
  "fst (postMessage ragService
         \<lparr>req_message = Some ''What happened today?'', req_sessionId = Some ''uuid-0'', req_topK = None\<rparr>
         (snd (createSession fresh_world)))
     = Reply 500 (Failure ''Failed to process message'')
   \<and> getHistory ''uuid-0''
        (snd (postMessage ragService
           \<lparr>req_message = Some ''What happened today?'', req_sessionId = Some ''uuid-0'', req_topK = None\<rparr>
           (snd (createSession fresh_world))))
     = Reply 200 (History
         [\<lparr>msg_id = ''uuid-1'', msg_type = User, msg_content = Text ''What happened today?'',
            msg_timestamp = 0\<rparr>] 1 0)"
  by (simp add: postMessage_def ragService_def fresh_world_def createSession_def
      updateSessionActivity_def getHistory_def pushTurn_def pushUser_def pushBot_def uuidv4_def
      redis_get_def redis_setEx_def session_ttl_def session_key_def decimal_small)

section \<open>Generation gateway: the retry policy\<close>













section \<open>Query processor: no hits, failing search\<close>

lemma embedSingle_trace: "snd (embedSingle sv query) = [EmbedCall [query]]"
  by (simp add: embedSingle_def embed_def split: sum.splits)

text \<open>
  Claim C1. When the search of the vector store returns no hit (the embedding of the query
  having succeeded, so that the search is made), \<open>processRAGQuery\<close> returns the fixed
  answer with no sources and \<open>hasRelevantContext = False\<close>, and its calls include no call
  of the language model.
\<close>

theorem zero_hits_skip_generation:
  assumes "fst (embedSingle sv query) = Inr qe"
    and "qdrant_search sv (collectionName sv) (serverSearch qe) = Inr []"
  shows "fst (processRAGQuery sv query sessionId)
           = Inr \<lparr>answer = Some noInformation, sources = [], hasRelevantContext = False\<rparr>
       \<and> (\<forall>p. GenerateCall p \<notin> set (snd (processRAGQuery sv query sessionId)))"
proof -
  have es: "embedSingle sv query = (Inr qe, [EmbedCall [query]])"
    using assms(1) embedSingle_trace [of sv query] by (cases "embedSingle sv query") simp
  show ?thesis
    by (simp add: processRAGQuery_def es assms(2))
qed

theorem zero_hits_skip_generation_witness:
  "fst (embedSingle (sample_services no_hits) ''anything new?'') = Inr (Some [1, 0])
   \<and> qdrant_search (sample_services no_hits) (collectionName (sample_services no_hits))
       (serverSearch (Some [1, 0])) = Inr []
   \<and> fst (processRAGQuery (sample_services no_hits) ''anything new?'' ''s1'')
       = Inr \<lparr>answer = Some noInformation, sources = [], hasRelevantContext = False\<rparr>
   \<and> (\<forall>p. GenerateCall p \<notin> set (snd (processRAGQuery (sample_services no_hits) ''anything new?'' ''s1'')))"
proof -
  have a: "fst (embedSingle (sample_services no_hits) ''anything new?'') = Inr (Some [1, 0])"
    by (simp add: embedSingle_def embed_def sample_services_def)
  have b: "qdrant_search (sample_services no_hits) (collectionName (sample_services no_hits))
       (serverSearch (Some [1, 0])) = Inr []"
    by (simp add: sample_services_def no_hits_def)
  show ?thesis
    using a b zero_hits_skip_generation [OF a b, of "''s1''"] by simp
qed

text \<open>
  Claim C5, evaluated. The vector store refuses the connection. \<open>processRAGQuery\<close> does not
  catch the failure: its result is the error, and the \<^verbatim>\<open>send-message\<close> handler of the socket
  answers with an \<^verbatim>\<open>error\<close> event, not with a response whose \<open>hasRelevantContext\<close> is false.
  The sibling \<open>retrieveRelevantDocs\<close> of the RAG service does catch it and returns no hits.
\<close>

theorem failing_search_reaches_socket_handler:
  "processRAGQuery (sample_services unreachable) ''anything new?'' ''s1''
     = (Inl (Error ''connect ECONNREFUSED''),
        [EmbedCall [''anything new?''],
         SearchCall ''news_articles'' (serverSearch (Some [1, 0]))])
   \<and> fst (sendMessage (sample_services unreachable) ''s1'' ''anything new?'' ''id'' 0)
       = ErrorEvent ''Failed to process your message. Please try again.''
   \<and> fst (retrieveRelevantDocs (sample_services unreachable) [1, 0] 5) = []"
  by (simp add: processRAGQuery_def sendMessage_def retrieveRelevantDocs_def embedSingle_def
      embed_def sample_services_def unreachable_def)

text \<open>
  Claim C2, evaluated. With the modules as the repository defines them, the cache service
  has no \<^verbatim>\<open>getCachedResponse\<close>: the first statement of \<open>answerQuery\<close> throws, the \<^verbatim>\<open>catch\<close>
  returns the fixed failure answer, and the cache is neither read nor written. A second
  call with the same session and query returns the same failure answer, never a cached
  answer tagged \<^verbatim>\<open>fromCache\<close>.
\<close>

theorem answerQuery_never_reaches_the_cache:
  "answerQuery cacheService embeddings gemini sv sessionId query c = (somethingWentWrong, c, [])"
  by (simp add: answerQuery_def cacheService_def)

text \<open>The cache service's own pair does what the claim asks for: a result written by
  \<open>cacheQueryResult\<close> is read back by \<open>getCachedQueryResult\<close>, tagged \<open>fromCache\<close>, for every
  query with the same normal form, as long as the entry has not expired.\<close>

lemma cached_result_read_back:
  assumes "cacheQueryResult lc q r ttl w = (True, w')"
    and "normalizeQuery lc q' = normalizeQuery lc q"
    and "d < nat (case ttl of None \<Rightarrow> defaultTTL w | Some n \<Rightarrow> n)"
  shows "getCachedQueryResult lc q' (w'\<lparr>cache_clock := cache_clock w' + d\<rparr>)
           = Some \<lparr>cr_result = r, fromCache = True, cachedAt = cache_clock w\<rparr>"
proof -
  have k: "getQueryCacheKey lc q' = getQueryCacheKey lc q"
    using assms(2) by (simp add: getQueryCacheKey_def)
  show ?thesis
    using assms(1,3)
    by (auto simp: cacheQueryResult_def getCachedQueryResult_def Let_def k split: if_splits)
qed

text \<open>The RAG service on the same two situations, whenever its pipeline gets as far as the
  search: a failed search gives no hits, and no hits give the fixed answer without a call
  of the language model.\<close>

lemma embedQuery_trace: "set (snd (embedQuery em query)) \<subseteq> {EmbeddingCall query}"
  by (simp add: embedQuery_def split: option.splits)

lemma retrieveRelevantDocs_failure:
  "qdrant_search sv (ragCollectionName sv)
     \<lparr>vector = Some v, limit = k, score_threshold = None, with_payload = Some True\<rparr> = Inl e
   \<Longrightarrow> fst (retrieveRelevantDocs sv v k) = []"
  by (simp add: retrieveRelevantDocs_def)

lemma answerUncached_no_hits:
  assumes "fst (embedQuery em query) = Inr v" and "fst (retrieveRelevantDocs sv v 5) = []"
  shows "fst (answerUncached cm em gm sv sessionId query c) = noRelevantInformation
       \<and> (\<forall>p. AnswerCall p \<notin> set (snd (snd (answerUncached cm em gm sv sessionId query c))))"
proof -
  obtain t1 where e: "embedQuery em query = (Inr v, t1)"
    using assms(1) by (cases "embedQuery em query") simp
  obtain t2 where r: "retrieveRelevantDocs sv v 5 = ([], t2)"
    using assms(2) by (cases "retrieveRelevantDocs sv v 5") simp
  have t1: "\<And>p. AnswerCall p \<notin> set t1"
    using embedQuery_trace [of em query] e by auto
  have "snd (retrieveRelevantDocs sv v 5)
          = [SearchCall (ragCollectionName sv)
               \<lparr>vector = Some v, limit = 5, score_threshold = None, with_payload = Some True\<rparr>]"
    by (simp add: retrieveRelevantDocs_def Let_def)
  then have t2: "\<And>p. AnswerCall p \<notin> set t2"
    using r by simp
  show ?thesis
    by (simp add: answerUncached_def e r t1 t2)
qed

section \<open>Ingestion: the number and order of embeddings\<close>
























section \<open>Socket bindings: the delivery group of a session\<close>

lemma map_of_map_set: "map_of (map_set k v xs) k' = (if k' = k then Some v else map_of xs k')"
  by (induction xs) auto

lemma map_of_delete_first:
  "map_of xs k = Some t \<Longrightarrow> t \<noteq> s \<Longrightarrow> map_of (delete_first s xs) k = Some t"
  by (induction xs) (auto split: if_splits)

lemma connect_recorded: "members_recorded st \<Longrightarrow> members_recorded (connect s st)"
  by (auto simp: members_recorded_def in_room_def connect_def split: option.splits if_splits)

lemma disconnect_recorded: "members_recorded st \<Longrightarrow> members_recorded (disconnect s st)"
  unfolding members_recorded_def
proof (intro allI impI)
  fix t S
  assume inv: "\<forall>t S. in_room st t S \<and> t \<noteq> S \<longrightarrow> map_of (connectedSessions st) S = Some t"
    and b: "in_room (disconnect s st) t S \<and> t \<noteq> S"
  show "map_of (connectedSessions (disconnect s st)) S = Some t"
  proof (cases "sockets st s")
    case None
    then show ?thesis using inv b by (simp add: disconnect_def)
  next
    case (Some rooms)
    from b Some have ts: "t \<noteq> s" and bt: "in_room st t S \<and> t \<noteq> S"
      by (auto simp: disconnect_def in_room_def split: option.splits if_splits)
    from inv bt have "map_of (connectedSessions st) S = Some t" by blast
    then show ?thesis using ts Some by (simp add: disconnect_def map_of_delete_first)
  qed
qed

lemma joinSession_sockets:
  assumes live: "sockets st s = Some rooms"
  shows "sockets (joinSession s S st) t =
           (if t = s then Some (insert S {room \<in> rooms. room = s})
            else if map_of (connectedSessions st) S = Some t
                 then (case sockets st t of None \<Rightarrow> None | Some rs \<Rightarrow> Some (rs - {S}))
                 else sockets st t)"
proof (cases "map_of (connectedSessions st) S")
  case None
  then show ?thesis using live by (simp add: joinSession_def Let_def)
next
  case (Some x)
  show ?thesis
  proof (cases "x = s")
    case True
    then show ?thesis
      using live Some by (auto simp: joinSession_def Let_def leave_def)
  next
    case False
    show ?thesis
    proof (cases "sockets st x")
      case None
      then show ?thesis
        using live Some False by (auto simp: joinSession_def Let_def leave_def)
    next
      case (Some rs)
      then show ?thesis
        using live \<open>map_of (connectedSessions st) S = Some x\<close> False
        by (auto simp: joinSession_def Let_def leave_def)
    qed
  qed
qed

lemma joinSession_in_room:
  assumes live: "sockets st s = Some rooms"
  shows "in_room (joinSession s S st) t R \<longleftrightarrow>
           (if t = s then R = S \<or> (R = s \<and> s \<in> rooms)
            else if map_of (connectedSessions st) S = Some t then in_room st t R \<and> R \<noteq> S
                 else in_room st t R)"
  by (auto simp: in_room_def joinSession_sockets [OF live] split: option.splits)

lemma joinSession_connected:
  "sockets st s = Some rooms \<Longrightarrow>
   map_of (connectedSessions (joinSession s S st)) R
     = (if R = S then Some s else map_of (connectedSessions st) R)"
  by (auto simp: joinSession_def Let_def leave_def map_of_map_set split: option.splits)

lemma joinSession_recorded: "members_recorded st \<Longrightarrow> members_recorded (joinSession s S st)"
proof (cases "sockets st s")
  case None
  then show "members_recorded st \<Longrightarrow> ?thesis" by (simp add: joinSession_def)
next
  case (Some rooms)
  assume inv: "members_recorded st"
  show ?thesis
    unfolding members_recorded_def
  proof (intro allI impI)
    fix t R
    assume m: "in_room (joinSession s S st) t R \<and> t \<noteq> R"
    show "map_of (connectedSessions (joinSession s S st)) R = Some t"
    proof (cases "t = s")
      case True
      then have "R = S" using m by (auto simp: joinSession_in_room [OF Some])
      then show ?thesis using True by (simp add: joinSession_connected [OF Some])
    next
      case False
      then have old: "in_room st t R" and rs: "map_of (connectedSessions st) S = Some t \<longrightarrow> R \<noteq> S"
        using m by (auto simp: joinSession_in_room [OF Some] split: if_splits)
      have rec: "map_of (connectedSessions st) R = Some t"
        using inv old m unfolding members_recorded_def by blast
      then have "R \<noteq> S" using rs by blast
      then show ?thesis using rec by (simp add: joinSession_connected [OF Some])
    qed
  qed
qed

lemma channel_step_recorded: "members_recorded st \<Longrightarrow> members_recorded (channel_step st ev)"
  by (cases ev) (simp_all add: connect_recorded joinSession_recorded disconnect_recorded)

lemma foldl_channel_step_recorded:
  "members_recorded st \<Longrightarrow> members_recorded (foldl channel_step st evs)"
  by (induction evs arbitrary: st) (simp_all add: channel_step_recorded)

lemma channel_run_recorded: "members_recorded (channel_run evs)"
  unfolding channel_run_def
  by (rule foldl_channel_step_recorded) (simp add: members_recorded_def in_room_def)

lemma joinSession_evicts:
  assumes inv: "members_recorded st" and live: "sockets st s = Some rooms"
    and "t \<noteq> s" and "t \<noteq> S"
  shows "\<not> in_room (joinSession s S st) t S"
proof
  assume m: "in_room (joinSession s S st) t S"
  then have old: "in_room st t S" and nr: "map_of (connectedSessions st) S \<noteq> Some t"
    using assms(3) by (auto simp: joinSession_in_room [OF live] split: if_splits)
  have "map_of (connectedSessions st) S = Some t"
    using inv old assms(4) unfolding members_recorded_def by blast
  then show False using nr by simp
qed

lemma channel_example:
  "sockets (channel_run [Connect ''A'', Connect ''B'', Join ''A'' ''S'']) ''B'' = Some {''B''}"
  "sockets (channel_run [Connect ''A'', Connect ''B'', Join ''A'' ''S'']) ''S'' = None"
  "in_room (channel_run [Connect ''A'', Connect ''B'', Join ''A'' ''S'']) ''A'' ''S''"
  by (simp_all add: channel_run_def connect_def joinSession_def in_room_def Let_def)

text \<open>A room named by the id of a live socket can hold two sockets: its owner, and the
  socket that joined it as a session.\<close>

lemma own_room_has_two:
  "in_room (channel_run [Connect ''A'', Connect ''B'', Join ''B'' ''A'']) ''A'' ''A''
   \<and> in_room (channel_run [Connect ''A'', Connect ''B'', Join ''B'' ''A'']) ''B'' ''A''"
  by (simp add: channel_run_def connect_def joinSession_def in_room_def Let_def)

text \<open>
  Claim C9 as stated fails in its consequence. A joins session S, then B joins S: B is the
  socket recorded for S and A has been made to leave the room of S. A then sends a message
  for S, and the response for S is sent to A all the same: the \<^verbatim>\<open>send-message\<close> handler
  answers the socket that asked and looks at no binding.
\<close>

theorem evicted_socket_still_answered:
  "map_of (connectedSessions
       (channel_run [Connect ''A'', Connect ''B'', Join ''A'' ''S'', Join ''B'' ''S''])) ''S''
     = Some ''B''
   \<and> \<not> in_room (channel_run [Connect ''A'', Connect ''B'', Join ''A'' ''S'', Join ''B'' ''S''])
         ''A'' ''S''
   \<and> onSendMessage (sample_services no_hits)
        (channel_run [Connect ''A'', Connect ''B'', Join ''A'' ''S'', Join ''B'' ''S''])
        ''A'' ''S'' ''anything new?'' ''id'' 0
     = [(''A'', BotResponse ''id'' ''S''
               \<lparr>answer = Some noInformation, sources = [], hasRelevantContext = False\<rparr> 0)]"
  by (simp add: channel_run_def connect_def joinSession_def leave_def in_room_def Let_def
      onSendMessage_def sendMessage_def processRAGQuery_def embedSingle_def embed_def
      sample_services_def no_hits_def)

text \<open>
  Claim C9, amended. After any sequence of connections, \<^verbatim>\<open>join-session\<close> events and
  disconnections: every live socket in the room of a session id \<open>S\<close> is the socket recorded
  for \<open>S\<close> in \<^verbatim>\<open>connectedSessions\<close>, or is the socket whose own id is \<open>S\<close>; so when \<open>S\<close> is not the
  id of a live socket, at most one live socket is in the room of \<open>S\<close>. When a live socket \<open>s\<close>
  then joins \<open>S\<close>, it becomes the socket recorded for \<open>S\<close> and is in the room of \<open>S\<close>, and no
  other socket is left in that room (the socket whose own id is \<open>S\<close> aside): the socket
  recorded before has been made to leave. The answer to a message is sent to the live
  socket that sent the message, and to that socket only, whether or not it is in the room.
\<close>

theorem one_joined_connection_per_session:
  "(\<forall>t. in_room (channel_run evs) t S \<longrightarrow>
         t = S \<or> map_of (connectedSessions (channel_run evs)) S = Some t)
   \<and> (sockets (channel_run evs) S = None \<longrightarrow>
        (\<forall>t1 t2. in_room (channel_run evs) t1 S \<and> in_room (channel_run evs) t2 S \<longrightarrow> t1 = t2))
   \<and> (\<forall>s rooms. sockets (channel_run evs) s = Some rooms \<longrightarrow>
         map_of (connectedSessions (joinSession s S (channel_run evs))) S = Some s
       \<and> in_room (joinSession s S (channel_run evs)) s S
       \<and> (\<forall>t. t \<noteq> s \<and> t \<noteq> S \<longrightarrow> \<not> in_room (joinSession s S (channel_run evs)) t S)
       \<and> map fst (onSendMessage sv (channel_run evs) s S msg uuid now) = [s])"
proof (intro conjI allI impI)
  note inv = channel_run_recorded [of evs]
  show "t = S \<or> map_of (connectedSessions (channel_run evs)) S = Some t"
    if "in_room (channel_run evs) t S" for t
    using that inv unfolding members_recorded_def by blast
  show "t1 = t2"
    if "sockets (channel_run evs) S = None"
      and "in_room (channel_run evs) t1 S \<and> in_room (channel_run evs) t2 S" for t1 t2
  proof -
    have "t1 \<noteq> S" "t2 \<noteq> S" using that by (auto simp: in_room_def)
    then have "map_of (connectedSessions (channel_run evs)) S = Some t1"
      "map_of (connectedSessions (channel_run evs)) S = Some t2"
      using that(2) inv unfolding members_recorded_def by blast+
    then show ?thesis by simp
  qed
  show "map_of (connectedSessions (joinSession s S (channel_run evs))) S = Some s"
    if "sockets (channel_run evs) s = Some rooms" for s rooms
    using that by (simp add: joinSession_connected)
  show "in_room (joinSession s S (channel_run evs)) s S"
    if "sockets (channel_run evs) s = Some rooms" for s rooms
    using that by (simp add: joinSession_in_room)
  show "\<not> in_room (joinSession s S (channel_run evs)) t S"
    if "sockets (channel_run evs) s = Some rooms" and "t \<noteq> s \<and> t \<noteq> S" for s rooms t
    using joinSession_evicts [OF inv that(1)] that(2) by blast
  show "map fst (onSendMessage sv (channel_run evs) s S msg uuid now) = [s]"
    if "sockets (channel_run evs) s = Some rooms" for s rooms
    using that by (simp add: onSendMessage_def)
qed

theorem one_joined_connection_per_session_witness:
  "sockets (channel_run [Connect ''A'', Connect ''B'', Join ''A'' ''S'']) ''B'' = Some {''B''}
   \<and> sockets (channel_run [Connect ''A'', Connect ''B'', Join ''A'' ''S'']) ''S'' = None
   \<and> in_room (channel_run [Connect ''A'', Connect ''B'', Join ''A'' ''S'']) ''A'' ''S''
   \<and> map_of (connectedSessions (channel_run [Connect ''A'', Connect ''B'', Join ''A'' ''S''])) ''S''
       = Some ''A''
   \<and> in_room (joinSession ''B'' ''S'' (channel_run [Connect ''A'', Connect ''B'', Join ''A'' ''S'']))
        ''B'' ''S''
   \<and> \<not> in_room (joinSession ''B'' ''S'' (channel_run [Connect ''A'', Connect ''B'', Join ''A'' ''S'']))
          ''A'' ''S''"
proof -
  let ?st = "channel_run [Connect ''A'', Connect ''B'', Join ''A'' ''S'']"
  note t = one_joined_connection_per_session [where evs = "[Connect ''A'', Connect ''B'', Join ''A'' ''S'']"
      and S = "''S''"]
  from t have mem: "\<forall>t. in_room ?st t ''S'' \<longrightarrow> t = ''S'' \<or> map_of (connectedSessions ?st) ''S'' = Some t"
    by (rule conjunct1)
  from t have ev: "\<forall>s rooms. sockets ?st s = Some rooms \<longrightarrow>
         map_of (connectedSessions (joinSession s ''S'' ?st)) ''S'' = Some s
       \<and> in_room (joinSession s ''S'' ?st) s ''S''
       \<and> (\<forall>t. t \<noteq> s \<and> t \<noteq> ''S'' \<longrightarrow> \<not> in_room (joinSession s ''S'' ?st) t ''S'')
       \<and> map fst (onSendMessage sv (channel_run [Connect ''A'', Connect ''B'', Join ''A'' ''S''])
                     s ''S'' msg uuid now) = [s]"
    by (rule conjunct2 [OF conjunct2])
  have live: "sockets ?st ''B'' = Some {''B''}" by (rule channel_example(1))
  have a: "in_room ?st ''A'' ''S''" by (rule channel_example(3))
  have rec: "map_of (connectedSessions ?st) ''S'' = Some ''A''"
    using mem [rule_format, OF a] by simp
  note k = ev [rule_format, OF live]
  have b1: "in_room (joinSession ''B'' ''S'' ?st) ''B'' ''S''"
    using k by simp
  have b2: "\<not> in_room (joinSession ''B'' ''S'' ?st) ''A'' ''S''"
    using k by simp
  show ?thesis
    using live channel_example(2) a rec b1 b2 by simp
qed

section \<open>Cache keys: which queries share a key\<close>

lemma div_mod_eq: "(a::nat) div k = b div k \<Longrightarrow> a mod k = b mod k \<Longrightarrow> a = b"
  by (metis div_mult_mod_eq)

lemma utf8_front_one: "cp < 0x80 \<Longrightarrow> utf8_front (utf8 cp @ rest) = (cp, rest)"
  by (simp add: utf8_front_def utf8_def)

lemma utf8_front_two:
  assumes "0x80 \<le> cp" and "cp < 0x800"
  shows "utf8_front (utf8 cp @ rest) = (cp, rest)"
proof -
  have u: "utf8 cp = [0xC0 + cp div 64, 0x80 + cp mod 64]"
    using assms by (simp add: utf8_def)
  have "cp div 64 < 32" using assms by simp
  then have h: "\<not> 0xC0 + cp div 64 < (0x80::nat)" "0xC0 + cp div 64 < (0xE0::nat)" by simp_all
  have v: "(0xC0 + cp div 64 - 0xC0) * 64 + (0x80 + cp mod 64 - 0x80) = cp" by simp
  show ?thesis
    unfolding u utf8_front_def using h v by simp
qed

lemma expand_digit: "((r::nat) * 64 + m) * k = r * (64 * k) + m * k"
  by (simp add: add_mult_distrib)

lemma three_digits: "(n::nat) div 4096 * 4096 + n div 64 mod 64 * 64 + n mod 64 = n"
proof -
  have a: "n div 4096 = n div 64 div 64" by (simp add: div_mult2_eq)
  have b: "n div 64 * 64 = n div 64 div 64 * 4096 + n div 64 mod 64 * 64"
    using expand_digit [of "n div 64 div 64" "n div 64 mod 64" 64] by simp
  have c: "n div 64 * 64 + n mod 64 = n" by simp
  show ?thesis using a b c by simp
qed

lemma four_digits:
  "(n::nat) div 262144 * 262144 + n div 4096 mod 64 * 4096 + n div 64 mod 64 * 64 + n mod 64 = n"
proof -
  have a: "n div 262144 = n div 4096 div 64" by (simp add: div_mult2_eq)
  have b: "n div 4096 * 4096 = n div 4096 div 64 * 262144 + n div 4096 mod 64 * 4096"
    using expand_digit [of "n div 4096 div 64" "n div 4096 mod 64" 4096] by simp
  show ?thesis using a b three_digits [of n] by simp
qed

lemma utf8_front_three:
  assumes "0x800 \<le> cp" and "cp < 0x10000"
  shows "utf8_front (utf8 cp @ rest) = (cp, rest)"
proof -
  have u: "utf8 cp = [0xE0 + cp div 4096, 0x80 + cp div 64 mod 64, 0x80 + cp mod 64]"
    using assms by (simp add: utf8_def)
  have "cp div 4096 < 16" using assms by simp
  then have h: "\<not> 0xE0 + cp div 4096 < (0x80::nat)" "\<not> 0xE0 + cp div 4096 < (0xE0::nat)"
    "0xE0 + cp div 4096 < (0xF0::nat)" by simp_all
  have v: "(0xE0 + cp div 4096 - 0xE0) * 4096 + (0x80 + cp div 64 mod 64 - 0x80) * 64
             + (0x80 + cp mod 64 - 0x80) = cp"
    using three_digits [of cp] by simp
  show ?thesis
    unfolding u utf8_front_def using h v by (simp add: numeral_2_eq_2)
qed

lemma utf8_front_four:
  assumes "0x10000 \<le> cp"
  shows "utf8_front (utf8 cp @ rest) = (cp, rest)"
proof -
  have u: "utf8 cp = [0xF0 + cp div 262144, 0x80 + cp div 4096 mod 64, 0x80 + cp div 64 mod 64,
                      0x80 + cp mod 64]"
    using assms by (simp add: utf8_def)
  have h: "\<not> 0xF0 + cp div 262144 < (0x80::nat)" "\<not> 0xF0 + cp div 262144 < (0xE0::nat)"
    "\<not> 0xF0 + cp div 262144 < (0xF0::nat)" by simp_all
  have v: "(0xF0 + cp div 262144 - 0xF0) * 262144 + (0x80 + cp div 4096 mod 64 - 0x80) * 4096
             + (0x80 + cp div 64 mod 64 - 0x80) * 64 + (0x80 + cp mod 64 - 0x80) = cp"
    using four_digits [of cp] by simp
  show ?thesis
    unfolding u utf8_front_def using h v by (simp add: numeral_2_eq_2 numeral_3_eq_3)
qed

lemma utf8_front_utf8: "utf8_front (utf8 cp @ rest) = (cp, rest)"
proof -
  consider (one) "cp < 0x80" | (two) "0x80 \<le> cp" "cp < 0x800"
    | (three) "0x800 \<le> cp" "cp < 0x10000" | (four) "0x10000 \<le> cp"
    by linarith
  then show ?thesis
    by cases (simp_all add: utf8_front_one utf8_front_two utf8_front_three utf8_front_four)
qed

lemma utf8_append_inj:
  assumes "utf8 x @ A = utf8 y @ B"
  shows "x = y \<and> A = B"
proof -
  have "utf8_front (utf8 x @ A) = utf8_front (utf8 y @ B)" using assms by simp
  then show ?thesis by (simp add: utf8_front_utf8)
qed

lemma utf8_not_Nil: "utf8 x \<noteq> []"
  by (simp add: utf8_def)

lemma concat_utf8_inj:
  "concat (map utf8 xs) = concat (map utf8 ys) \<Longrightarrow> xs = ys"
proof (induction xs arbitrary: ys)
  case Nil
  then show ?case by (cases ys) (simp_all add: utf8_not_Nil)
next
  case (Cons x xs)
  show ?case
  proof (cases ys)
    case Nil
    then show ?thesis using Cons.prems by (simp add: utf8_not_Nil)
  next
    case (Cons y ys')
    have "utf8 x @ concat (map utf8 xs) = utf8 y @ concat (map utf8 ys')"
      using Cons.prems Cons by simp
    then have "x = y \<and> concat (map utf8 xs) = concat (map utf8 ys')"
      by (rule utf8_append_inj)
    then show ?thesis using Cons.IH [of ys'] Cons by simp
  qed
qed

lemma utf8_bytes: "cp < 0x110000 \<Longrightarrow> \<forall>b \<in> set (utf8 cp). b < 256"
proof -
  assume bound: "cp < 0x110000"
  have a: "cp mod 64 < 64" "cp div 64 mod 64 < 64" "cp div 4096 mod 64 < 64" by simp_all
  have b: "cp < 0x800 \<Longrightarrow> cp div 64 < 32" by simp
  have c: "cp < 0x10000 \<Longrightarrow> cp div 4096 < 16" by simp
  have d: "cp div 262144 < 5" using bound by simp
  show ?thesis
    using a b c d by (auto simp: utf8_def)
qed

lemma unat16: "unat (u::16 word) < 65536"
  using unsigned_less [of u, where ?'a = nat] by simp

lemma surrogates_disjoint: "isHighSurrogate u \<Longrightarrow> \<not> isLowSurrogate u"
  by (simp add: isHighSurrogate_def isLowSurrogate_def)

lemma single_bound: "single u < 0x10000"
  using unat16 [of u] by (simp add: single_def)

lemma supplementary_bounds:
  assumes "isHighSurrogate u" and "isLowSurrogate l"
  shows "0x10000 \<le> supplementary u l" and "supplementary u l < 0x110000"
proof -
  have a: "unat u - 0xD800 \<le> 1023" using assms(1) unfolding isHighSurrogate_def by arith
  have b: "unat l - 0xDC00 \<le> 1023" using assms(2) unfolding isLowSurrogate_def by arith
  from a have "(unat u - 0xD800) * 0x400 \<le> 1023 * 0x400" by (rule mult_le_mono1)
  then show "supplementary u l < 0x110000" using b by (simp add: supplementary_def)
  show "0x10000 \<le> supplementary u l" by (simp add: supplementary_def)
qed

lemma digits_inj:
  assumes "(b::nat) < k" and "b' < k" and "a * k + b = a' * k + b'"
  shows "a = a' \<and> b = b'"
proof -
  have "(a * k + b) div k = a" "(a' * k + b') div k = a'" using assms(1,2) by simp_all
  then have "a = a'" using assms(3) by simp
  then show ?thesis using assms(3) by simp
qed

lemma supplementary_inj:
  assumes "isHighSurrogate u" "isLowSurrogate l" "isHighSurrogate u'" "isLowSurrogate l'"
    and "supplementary u l = supplementary u' l'"
  shows "u = u' \<and> l = l'"
proof -
  have b: "unat l - 0xDC00 < 0x400" "unat l' - 0xDC00 < 0x400"
    using assms(2,4) unfolding isLowSurrogate_def by arith+
  have "(unat u - 0xD800) * 0x400 + (unat l - 0xDC00)
          = (unat u' - 0xD800) * 0x400 + (unat l' - 0xDC00)"
    using assms(5) by (simp add: supplementary_def)
  then have "unat u - 0xD800 = unat u' - 0xD800 \<and> unat l - 0xDC00 = unat l' - 0xDC00"
    using digits_inj [OF b] by blast
  then have "unat u = unat u'" "unat l = unat l'"
    using assms(1-4) unfolding isHighSurrogate_def isLowSurrogate_def by arith+
  then show ?thesis by (simp add: word_unat_eq_iff)
qed

lemma codePoints_bound: "\<forall>cp \<in> set (codePoints s). cp < 0x110000"
proof (induction s rule: codePoints.induct)
  case 1
  then show ?case by simp
next
  case (2 u)
  then show ?case using single_bound [of u] by simp
next
  case (3 u l rest)
  then show ?case
    using single_bound [of u] supplementary_bounds(2) [of u l] by auto
qed

text \<open>The shape of a well-formed string: empty, or a surrogate pair first, or a code unit
  that is no surrogate first.\<close>

lemma wellFormed_front:
  assumes "wellFormed s"
  shows "s = []
       \<or> (\<exists>u l rest. s = u # l # rest \<and> isHighSurrogate u \<and> isLowSurrogate l \<and> wellFormed rest
             \<and> codePoints s = supplementary u l # codePoints rest)
       \<or> (\<exists>u rest. s = u # rest \<and> \<not> isHighSurrogate u \<and> \<not> isLowSurrogate u \<and> wellFormed rest
             \<and> codePoints s = unat u # codePoints rest)"
proof (cases s rule: codePoints.cases)
  case 1
  then show ?thesis by simp
next
  case (2 u)
  then show ?thesis using assms by (simp add: single_def)
next
  case (3 u l rest)
  then show ?thesis using assms by (auto simp: single_def split: if_splits)
qed

lemma codePoints_inj:
  "wellFormed s \<Longrightarrow> wellFormed t \<Longrightarrow> codePoints s = codePoints t \<Longrightarrow> s = t"
proof (induction "length s" arbitrary: s t rule: less_induct)
  case less
  note fs = wellFormed_front [OF less.prems(1)]
  note ft = wellFormed_front [OF less.prems(2)]
  consider (nil) "s = []"
    | (pair) u l rest where "s = u # l # rest" "isHighSurrogate u" "isLowSurrogate l"
        "wellFormed rest" "codePoints s = supplementary u l # codePoints rest"
    | (unit) u rest where "s = u # rest" "\<not> isHighSurrogate u" "\<not> isLowSurrogate u"
        "wellFormed rest" "codePoints s = unat u # codePoints rest"
    using fs by blast
  then show ?case
  proof cases
    case nil
    then show ?thesis using ft less.prems(3) by auto
  next
    case pair
    from ft show ?thesis
    proof (elim disjE exE conjE)
      assume "t = []"
      then show ?thesis using pair less.prems(3) by simp
    next
      fix u' l' rest'
      assume t: "t = u' # l' # rest'" "isHighSurrogate u'" "isLowSurrogate l'" "wellFormed rest'"
        "codePoints t = supplementary u' l' # codePoints rest'"
      then have eq: "supplementary u l = supplementary u' l'" "codePoints rest = codePoints rest'"
        using pair(5) less.prems(3) by simp_all
      have "u = u' \<and> l = l'"
        using supplementary_inj [OF pair(2,3) t(2,3) eq(1)] .
      moreover have "rest = rest'"
        using less.hyps [of rest rest'] pair(1,4) t(4) eq(2) by simp
      ultimately show ?thesis using pair(1) t(1) by simp
    next
      fix u' rest'
      assume t: "t = u' # rest'" "\<not> isHighSurrogate u'" "\<not> isLowSurrogate u'" "wellFormed rest'"
        "codePoints t = unat u' # codePoints rest'"
      then have "supplementary u l = unat u'" using pair(5) less.prems(3) by simp
      then show ?thesis
        using supplementary_bounds(1) [OF pair(2,3)] unat16 [of u'] by simp
    qed
  next
    case unit
    from ft show ?thesis
    proof (elim disjE exE conjE)
      assume "t = []"
      then show ?thesis using unit less.prems(3) by simp
    next
      fix u' l' rest'
      assume t: "t = u' # l' # rest'" "isHighSurrogate u'" "isLowSurrogate l'" "wellFormed rest'"
        "codePoints t = supplementary u' l' # codePoints rest'"
      then have "unat u = supplementary u' l'" using unit(5) less.prems(3) by simp
      then show ?thesis
        using supplementary_bounds(1) [OF t(2,3)] unat16 [of u] by simp
    next
      fix u' rest'
      assume t: "t = u' # rest'" "\<not> isHighSurrogate u'" "\<not> isLowSurrogate u'" "wellFormed rest'"
        "codePoints t = unat u' # codePoints rest'"
      then have eq: "unat u = unat u'" "codePoints rest = codePoints rest'"
        using unit(5) less.prems(3) by simp_all
      have "u = u'" using eq(1) by (simp add: word_unat_eq_iff)
      moreover have "rest = rest'"
        using less.hyps [of rest rest'] unit(1,4) t(4) eq(2) by simp
      ultimately show ?thesis using unit(1) t(1) by simp
    qed
  qed
qed

lemma b64chars_distinct: "distinct b64chars"
  by (simp add: b64chars_def)

lemma b64chars_length: "length b64chars = 64"
  by (simp add: b64chars_def)

lemma b64chars_no_pad: "CHR ''='' \<notin> set b64chars"
  by (simp add: b64chars_def)

lemma b64_inj: "i < 64 \<Longrightarrow> j < 64 \<Longrightarrow> b64 i = b64 j \<longleftrightarrow> i = j"
  unfolding b64_def using b64chars_distinct b64chars_length
  by (simp add: nth_eq_iff_index_eq)

lemma b64_mem: "i < 64 \<Longrightarrow> b64 i \<in> set b64chars"
  unfolding b64_def using b64chars_length by simp

lemma b64_not_pad: "i < 64 \<Longrightarrow> b64 i \<noteq> CHR ''=''" "i < 64 \<Longrightarrow> CHR ''='' \<noteq> b64 i"
  using b64_mem [of i] b64chars_no_pad by auto

lemma two_digits:
  "(x::nat) < 4 \<Longrightarrow> y < 16 \<Longrightarrow> x * 16 + y < 64"
  "(z::nat) < 16 \<Longrightarrow> w < 4 \<Longrightarrow> z * 4 + w < 64"
  by linarith+

lemma sextet_bounds:
  "a < 256 \<Longrightarrow> a div 4 < 64"
  "a mod 4 * 16 < 64"
  "b < 256 \<Longrightarrow> a mod 4 * 16 + b div 16 < 64"
  "b mod 16 * 4 < 64"
  "c < 256 \<Longrightarrow> b mod 16 * 4 + c div 64 < 64"
  "c mod 64 < 64"
  for a b c :: nat
proof -
  have m4: "a mod 4 < 4" and m16: "b mod 16 < 16" by simp_all
  show "a < 256 \<Longrightarrow> a div 4 < 64" by simp
  show "a mod 4 * 16 < 64" using two_digits(1) [OF m4, of 0] by simp
  show "b < 256 \<Longrightarrow> a mod 4 * 16 + b div 16 < 64"
  proof -
    assume "b < 256"
    then have "b div 16 < 16" by simp
    then show ?thesis using m4 by (rule two_digits(1) [rotated])
  qed
  show "b mod 16 * 4 < 64" using two_digits(2) [OF m16, of 0] by simp
  show "c < 256 \<Longrightarrow> b mod 16 * 4 + c div 64 < 64"
  proof -
    assume "c < 256"
    then have "c div 64 < 4" by simp
    then show ?thesis using m16 by (rule two_digits(2) [rotated])
  qed
  show "c mod 64 < 64" by simp
qed

lemma bytes1_inj:
  assumes "(a::nat) div 4 = a' div 4" and "a mod 4 * 16 = a' mod 4 * 16"
  shows "a = a'"
proof -
  have "a mod 4 = a' mod 4" using assms(2) by simp
  with assms(1) show ?thesis by (rule div_mod_eq)
qed

lemma bytes2_inj:
  assumes "b < 256" and "b' < 256"
    and "(a::nat) div 4 = a' div 4" and "a mod 4 * 16 + b div 16 = a' mod 4 * 16 + b' div 16"
    and "b mod 16 * 4 = b' mod 16 * 4"
  shows "a = a' \<and> b = b'"
proof -
  have "b div 16 < 16" "b' div 16 < 16" using assms(1,2) by simp_all
  then have d: "a mod 4 = a' mod 4 \<and> b div 16 = b' div 16"
    using assms(4) by (rule digits_inj)
  have m: "b mod 16 = b' mod 16" using assms(5) by simp
  have "b = b'" using conjunct2 [OF d] m by (rule div_mod_eq)
  moreover have "a = a'" using assms(3) conjunct1 [OF d] by (rule div_mod_eq)
  ultimately show ?thesis by simp
qed

lemma bytes3_inj:
  assumes "b < 256" and "b' < 256" and "c < 256" and "c' < 256"
    and "(a::nat) div 4 = a' div 4" and "a mod 4 * 16 + b div 16 = a' mod 4 * 16 + b' div 16"
    and "b mod 16 * 4 + c div 64 = b' mod 16 * 4 + c' div 64" and "c mod 64 = c' mod 64"
  shows "a = a' \<and> b = b' \<and> c = c'"
proof -
  have "b div 16 < 16" "b' div 16 < 16" using assms(1,2) by simp_all
  then have d: "a mod 4 = a' mod 4 \<and> b div 16 = b' div 16"
    using assms(6) by (rule digits_inj)
  have "c div 64 < 4" "c' div 64 < 4" using assms(3,4) by simp_all
  then have e: "b mod 16 = b' mod 16 \<and> c div 64 = c' div 64"
    using assms(7) by (rule digits_inj)
  have "a = a'" using assms(5) conjunct1 [OF d] by (rule div_mod_eq)
  moreover have "b = b'" using conjunct2 [OF d] conjunct1 [OF e] by (rule div_mod_eq)
  moreover have "c = c'" using conjunct2 [OF e] assms(8) by (rule div_mod_eq)
  ultimately show ?thesis by simp
qed

lemma base64_inj:
  "\<forall>b \<in> set xs. b < 256 \<Longrightarrow> \<forall>b \<in> set ys. b < 256 \<Longrightarrow> base64 xs = base64 ys \<Longrightarrow> xs = ys"
proof (induction xs arbitrary: ys rule: base64.induct)
  case 1
  then show ?case by (cases ys rule: base64.cases) simp_all
next
  case (2 a)
  show ?case
  proof (cases ys rule: base64.cases)
    case 1
    then show ?thesis using 2 by simp
  next
    case (2 a')
    then show ?thesis
      using "2.prems" bytes1_inj [of a a'] by (simp add: b64_inj sextet_bounds)
  next
    case (3 a' b')
    then show ?thesis using "2.prems" by (simp add: b64_not_pad sextet_bounds)
  next
    case (4 a' b' c' rest')
    then show ?thesis using "2.prems" by (simp add: b64_not_pad sextet_bounds)
  qed
next
  case (3 a b)
  show ?case
  proof (cases ys rule: base64.cases)
    case 1
    then show ?thesis using 3 by simp
  next
    case (2 a')
    then show ?thesis using "3.prems" by (simp add: b64_not_pad sextet_bounds)
  next
    case (3 a' b')
    then show ?thesis
      using "3.prems" bytes2_inj [of b b' a a'] by (simp add: b64_inj sextet_bounds)
  next
    case (4 a' b' c' rest')
    then show ?thesis using "3.prems" by (simp add: b64_not_pad sextet_bounds)
  qed
next
  case (4 a b c rest)
  show ?case
  proof (cases ys rule: base64.cases)
    case 1
    then show ?thesis using "4.prems" by simp
  next
    case (2 a')
    then show ?thesis using "4.prems" by (simp add: b64_not_pad sextet_bounds)
  next
    case (3 a' b')
    then show ?thesis using "4.prems" by (simp add: b64_not_pad sextet_bounds)
  next
    case ys: (4 a' b' c' rest')
    have bounds: "a < 256" "b < 256" "c < 256" "a' < 256" "b' < 256" "c' < 256"
      using "4.prems"(1,2) ys by simp_all
    have eq: "a div 4 = a' div 4" "a mod 4 * 16 + b div 16 = a' mod 4 * 16 + b' div 16"
      "b mod 16 * 4 + c div 64 = b' mod 16 * 4 + c' div 64" "c mod 64 = c' mod 64"
      "base64 rest = base64 rest'"
      using "4.prems"(3) ys bounds by (simp_all add: b64_inj sextet_bounds)
    have "a = a' \<and> b = b' \<and> c = c'"
      using bytes3_inj [OF bounds(2,5,3,6) eq(1-4)] .
    moreover have "rest = rest'"
      using "4.IH" [of rest'] "4.prems"(1,2) ys eq(5) by simp
    ultimately show ?thesis using ys by simp
  qed
qed

lemma base64_chars:
  "\<forall>b \<in> set xs. b < 256 \<Longrightarrow> set (base64 xs) \<subseteq> set b64chars \<union> {CHR ''=''}"
  by (induction xs rule: base64.induct) (simp_all add: b64_mem sextet_bounds)

lemma printable:
  "\<forall>c \<in> set (''query:'' @ b64chars @ ''=''). 32 < (of_char c :: nat) \<and> (of_char c :: nat) < 127"
  by (simp add: b64chars_def)

lemma bufferFrom_bytes: "\<forall>b \<in> set (bufferFrom s). b < 256"
  using codePoints_bound [of s] utf8_bytes by (auto simp: bufferFrom_def)

lemma bufferFrom_inj:
  assumes "wellFormed s" and "wellFormed t" and "bufferFrom s = bufferFrom t"
  shows "s = t"
proof -
  have "codePoints s = codePoints t"
    using assms(3) unfolding bufferFrom_def by (rule concat_utf8_inj)
  with assms(1,2) show ?thesis by (rule codePoints_inj)
qed

lemma key_printable:
  "\<forall>c \<in> set (getQueryCacheKey lc q). 32 < (of_char c :: nat) \<and> (of_char c :: nat) < 127"
proof
  fix c
  assume "c \<in> set (getQueryCacheKey lc q)"
  then have "c \<in> set ''query:'' \<or> c \<in> set (base64 (bufferFrom (normalizeQuery lc q)))"
    by (simp add: getQueryCacheKey_def)
  then have "c \<in> set (''query:'' @ b64chars @ ''='')"
    using base64_chars [OF bufferFrom_bytes, of "normalizeQuery lc q"] by auto
  then show "32 < (of_char c :: nat) \<and> (of_char c :: nat) < 127"
    using printable by blast
qed

text \<open>
  Claim C6 as stated fails for strings with a surrogate on its own. \<^verbatim>\<open>Buffer.from\<close> writes
  U+FFFD for such a code unit, so the one-unit string D800 and the string U+FFFD, which
  differ after lowercasing and trimming, get the same key.
\<close>

theorem cache_key_collision:
  "normalizeQuery lowerBasicLatin [0xD800] \<noteq> normalizeQuery lowerBasicLatin [0xFFFD]
   \<and> getQueryCacheKey lowerBasicLatin [0xD800] = ''query:77+9''
   \<and> getQueryCacheKey lowerBasicLatin [0xFFFD] = ''query:77+9''"
  by (simp add: getQueryCacheKey_def normalizeQuery_def lowerBasicLatin_def trim_def
      isHighSurrogate_def isLowSurrogate_def isWhiteSpace_def
      bufferFrom_def single_def utf8_def b64_def b64chars_def)

text \<open>
  Claim C6, amended. For every \<^verbatim>\<open>toLowerCase\<close> and every pair of query strings: queries that
  are equal after lowercasing and trimming have the same key; conversely, when both
  normalised queries are well formed (no surrogate on its own), equal keys mean equal
  normalised queries. Every key is \<^verbatim>\<open>query:\<close> followed by the base64 text of the UTF-8 bytes
  of the normalised query, its characters are base64 characters, and no character of a key
  is a control character (all lie strictly between 32 and 127).
\<close>

theorem cache_key_normalisation:
  "(normalizeQuery lc q1 = normalizeQuery lc q2 \<longrightarrow>
      getQueryCacheKey lc q1 = getQueryCacheKey lc q2)
   \<and> (wellFormed (normalizeQuery lc q1) \<and> wellFormed (normalizeQuery lc q2)
        \<and> getQueryCacheKey lc q1 = getQueryCacheKey lc q2 \<longrightarrow>
      normalizeQuery lc q1 = normalizeQuery lc q2)
   \<and> getQueryCacheKey lc q1 = ''query:'' @ base64 (bufferFrom (normalizeQuery lc q1))
   \<and> set (base64 (bufferFrom (normalizeQuery lc q1))) \<subseteq> set b64chars \<union> {CHR ''=''}
   \<and> (\<forall>c \<in> set (getQueryCacheKey lc q1). 32 < (of_char c :: nat) \<and> (of_char c :: nat) < 127)"
proof (intro conjI impI)
  show "getQueryCacheKey lc q1 = getQueryCacheKey lc q2"
    if "normalizeQuery lc q1 = normalizeQuery lc q2"
    using that by (simp add: getQueryCacheKey_def)
  show "normalizeQuery lc q1 = normalizeQuery lc q2"
    if h: "wellFormed (normalizeQuery lc q1) \<and> wellFormed (normalizeQuery lc q2)
        \<and> getQueryCacheKey lc q1 = getQueryCacheKey lc q2"
  proof -
    from h have "base64 (bufferFrom (normalizeQuery lc q1)) = base64 (bufferFrom (normalizeQuery lc q2))"
      by (simp add: getQueryCacheKey_def)
    then have "bufferFrom (normalizeQuery lc q1) = bufferFrom (normalizeQuery lc q2)"
      using base64_inj [OF bufferFrom_bytes bufferFrom_bytes] by blast
    then show ?thesis using h bufferFrom_inj by blast
  qed
  show "getQueryCacheKey lc q1 = ''query:'' @ base64 (bufferFrom (normalizeQuery lc q1))"
    by (simp add: getQueryCacheKey_def)
  show "set (base64 (bufferFrom (normalizeQuery lc q1))) \<subseteq> set b64chars \<union> {CHR ''=''}"
    by (rule base64_chars [OF bufferFrom_bytes])
  show "\<forall>c \<in> set (getQueryCacheKey lc q1). 32 < (of_char c :: nat) \<and> (of_char c :: nat) < 127"
    by (rule key_printable)
qed

lemma ukraine_normal:
  "normalizeQuery lowerBasicLatin (js ''Ukraine War?'') = js ''ukraine war?''"
  "normalizeQuery lowerBasicLatin (js '' ukraine war? '') = js ''ukraine war?''"
  "wellFormed (js ''ukraine war?'')"
  by (simp_all add: normalizeQuery_def lowerBasicLatin_def trim_def js_def
      isHighSurrogate_def isLowSurrogate_def isWhiteSpace_def)

lemma ukraine_key:
  "getQueryCacheKey lowerBasicLatin (js ''Ukraine War?'') = ''query:dWtyYWluZSB3YXI/''"
  unfolding getQueryCacheKey_def ukraine_normal(1)
  by (simp add: js_def bufferFrom_def single_def utf8_def b64_def b64chars_def
      isHighSurrogate_def isLowSurrogate_def)

lemma kyiv_normal:
  "normalizeQuery lowerBasicLatin (js ''KYIV '') = js ''kyiv''"
  "normalizeQuery lowerBasicLatin (js ''kyiv'') = js ''kyiv''"
  "wellFormed (js ''kyiv'')"
  by (simp_all add: normalizeQuery_def lowerBasicLatin_def trim_def js_def
      isHighSurrogate_def isLowSurrogate_def isWhiteSpace_def)

lemma kyiv_keys:
  "getQueryCacheKey lowerBasicLatin (js ''KYIV '') = ''query:a3lpdg==''"
  "getQueryCacheKey lowerBasicLatin (js ''kyiv'') = ''query:a3lpdg==''"
  unfolding getQueryCacheKey_def kyiv_normal(1,2)
  by (simp_all add: js_def bufferFrom_def single_def utf8_def b64_def b64chars_def
      isHighSurrogate_def isLowSurrogate_def)

theorem cache_key_normalisation_witness:
  "normalizeQuery lowerBasicLatin (js ''Ukraine War?'') = js ''ukraine war?''
   \<and> normalizeQuery lowerBasicLatin (js '' ukraine war? '') = js ''ukraine war?''
   \<and> getQueryCacheKey lowerBasicLatin (js ''Ukraine War?'')
       = getQueryCacheKey lowerBasicLatin (js '' ukraine war? '')
   \<and> getQueryCacheKey lowerBasicLatin (js ''Ukraine War?'') = ''query:dWtyYWluZSB3YXI/''
   \<and> wellFormed (normalizeQuery lowerBasicLatin (js ''KYIV ''))
   \<and> wellFormed (normalizeQuery lowerBasicLatin (js ''kyiv''))
   \<and> getQueryCacheKey lowerBasicLatin (js ''KYIV '') = getQueryCacheKey lowerBasicLatin (js ''kyiv'')
   \<and> normalizeQuery lowerBasicLatin (js ''KYIV '') = normalizeQuery lowerBasicLatin (js ''kyiv'')"
proof -
  have n: "normalizeQuery lowerBasicLatin (js ''Ukraine War?'')
             = normalizeQuery lowerBasicLatin (js '' ukraine war? '')"
    by (simp only: ukraine_normal(1,2))
  have k1: "getQueryCacheKey lowerBasicLatin (js ''Ukraine War?'')
          = getQueryCacheKey lowerBasicLatin (js '' ukraine war? '')"
    using cache_key_normalisation [of lowerBasicLatin "js ''Ukraine War?''" "js '' ukraine war? ''"] n
    by (rule_tac mp [OF conjunct1])
  have wf: "wellFormed (normalizeQuery lowerBasicLatin (js ''KYIV ''))"
    "wellFormed (normalizeQuery lowerBasicLatin (js ''kyiv''))"
    by (simp_all only: kyiv_normal)
  have ke: "getQueryCacheKey lowerBasicLatin (js ''KYIV '')
              = getQueryCacheKey lowerBasicLatin (js ''kyiv'')"
    by (simp only: kyiv_keys)
  have imp: "wellFormed (normalizeQuery lowerBasicLatin (js ''KYIV ''))
        \<and> wellFormed (normalizeQuery lowerBasicLatin (js ''kyiv''))
        \<and> getQueryCacheKey lowerBasicLatin (js ''KYIV '') = getQueryCacheKey lowerBasicLatin (js ''kyiv'')
      \<longrightarrow> normalizeQuery lowerBasicLatin (js ''KYIV '') = normalizeQuery lowerBasicLatin (js ''kyiv'')"
    using cache_key_normalisation [of lowerBasicLatin "js ''KYIV ''" "js ''kyiv''"]
    by (rule conjunct1 [OF conjunct2])
  have k2: "normalizeQuery lowerBasicLatin (js ''KYIV '') = normalizeQuery lowerBasicLatin (js ''kyiv'')"
    by (rule mp [OF imp]) (intro conjI wf ke)
  show ?thesis
    using ukraine_normal(1,2) k1 ukraine_key wf ke k2 by (intro conjI)
qed

end
